theory Spec2Isabelle
  imports Main "HOL-Library.Word" "HOL-Library.AList" "HOL-Library.Char_ord" "HOL-Library.List_Lexorder"
begin

section \<open>The index store of vtkDICOMDirectory\<close>

text \<open>
  The three tables of \<^verbatim>\<open>vtkDICOMDirectory\<close> (\<^verbatim>\<open>Series\<close>, \<^verbatim>\<open>Studies\<close>,
  \<^verbatim>\<open>Patients\<close>) are vectors of small structs. The metadata records
  (\<^verbatim>\<open>vtkDICOMItem\<close>) are opaque to the directory code, which only copies them, so
  their type is the parameter \<open>'r\<close>. The C++ \<^verbatim>\<open>int\<close> indices are modelled as
  unbounded integers: table sizes are assumed to stay below \<open>2 ^ 31\<close>.
\<close>

record 'r SeriesItem =
  SeriesItem_Record :: 'r
  SeriesItem_Files :: "string list"

record 'r StudyItem =
  StudyItem_Record :: 'r
  StudyItem_PatientRecord :: 'r
  FirstSeries :: int
  LastSeries :: int

record 'r PatientItem =
  PatientItem_Record :: 'r
  PatientItem_Studies :: "int list"

datatype FindLevelType = SERIES | IMAGE

text \<open>
  The object state: the three tables, the visited list, the retained error code, the
  abort flag, and the configuration members read by the scan
  (\<^verbatim>\<open>InputFileNames != 0\<close> and \<^verbatim>\<open>Query != 0\<close> are kept as booleans).
\<close>

record 'r vtkDICOMDirectory =
  Series :: "'r SeriesItem list"
  Studies :: "'r StudyItem list"
  Patients :: "'r PatientItem list"
  Visited :: "string list"
  ErrorCode :: nat
  AbortExecute :: bool
  FileSetID :: "string option"
  RequirePixelData :: bool
  FollowSymlinks :: bool
  ScanDepth :: int
  HasInputFileNames :: bool
  HasQuery :: bool
  FindLevel :: FindLevelType
  FilePattern :: "string option"

text \<open>
  The outcome of \<^verbatim>\<open>AddSeriesFileNames\<close>: it runs to the end (\<open>Ok\<close>), it logs an
  error and returns early (\<open>Rejected\<close>, with the state it leaves behind), or it indexes a
  vector below zero, which C++ leaves undefined (\<open>OutOfBounds\<close>).
\<close>

datatype 'a result = Ok 'a | Rejected 'a | OutOfBounds

definition AddSeriesFileNames ::
  "int \<Rightarrow> int \<Rightarrow> string list \<Rightarrow> 'r \<Rightarrow> 'r \<Rightarrow> 'r \<Rightarrow> 'r vtkDICOMDirectory \<Rightarrow> 'r vtkDICOMDirectory result" where
  "AddSeriesFileNames patient study files patientRecord studyRecord seriesRecord this =
    (let m = int (length (Patients this));
         n = int (length (Studies this));
         series = int (length (Series this));
         r1 =
          (if study = n then
             Ok (this\<lparr>Studies := Studies this @
               [\<lparr>StudyItem_Record = studyRecord, StudyItem_PatientRecord = patientRecord,
                 FirstSeries = series, LastSeries = series\<rparr>]\<rparr>)
           else if n \<ge> 0 \<and> study = n - 1 then
             (if 0 \<le> study then
                Ok (this\<lparr>Studies := (Studies this)
                  [nat study := (Studies this ! nat study)\<lparr>LastSeries := series\<rparr>]\<rparr>)
              else OutOfBounds)
           else Rejected this)
     in case r1 of
          Rejected s \<Rightarrow> Rejected s
        | OutOfBounds \<Rightarrow> OutOfBounds
        | Ok s1 \<Rightarrow>
           (let r2 =
             (if patient = m then
                Ok (s1\<lparr>Patients := Patients s1 @
                  [\<lparr>PatientItem_Record = patientRecord, PatientItem_Studies = [study]\<rparr>]\<rparr>)
              else if m \<ge> 0 \<and> patient = m - 1 then
                (if 0 \<le> patient then
                   (let item = Patients s1 ! nat patient;
                        item' = (if study \<in> set (PatientItem_Studies item) then item
                                 else item\<lparr>PatientItem_Studies := PatientItem_Studies item @ [study]\<rparr>)
                    in Ok (s1\<lparr>Patients := (Patients s1)[nat patient := item']\<rparr>))
                 else OutOfBounds)
              else Rejected s1)
            in case r2 of
                 Rejected s \<Rightarrow> Rejected s
               | OutOfBounds \<Rightarrow> OutOfBounds
               | Ok s2 \<Rightarrow>
                   Ok (s2\<lparr>Series := Series s2 @
                     [\<lparr>SeriesItem_Record = seriesRecord, SeriesItem_Files = files\<rparr>]\<rparr>)))"

text \<open>The tables after \<^verbatim>\<open>Execute\<close> has cleared them.\<close>

definition cleared :: "'r vtkDICOMDirectory \<Rightarrow> 'r vtkDICOMDirectory" where
  "cleared this = this\<lparr>Series := [], Studies := [], Patients := [], Visited := [],
     FileSetID := None, ErrorCode := 0\<rparr>"

text \<open>
  The range invariant of the study table: starting at series index \<open>k\<close>, every study
  begins where the one before ended plus one, is not empty, and the last one ends at
  \<open>e - 1\<close>.
\<close>

fun contiguous :: "int \<Rightarrow> 'r StudyItem list \<Rightarrow> int \<Rightarrow> bool" where
  "contiguous k [] e = (k = e)"
| "contiguous k (s # ss) e =
     (FirstSeries s = k \<and> FirstSeries s \<le> LastSeries s \<and> contiguous (LastSeries s + 1) ss e)"

definition store_inv :: "'r vtkDICOMDirectory \<Rightarrow> bool" where
  "store_inv this = contiguous 0 (Studies this) (int (length (Series this)))"

text \<open>One call of \<^verbatim>\<open>AddSeriesFileNames\<close>, with its six arguments.\<close>

record 'r AddCall =
  call_patient :: int
  call_study :: int
  call_files :: "string list"
  call_patientRecord :: 'r
  call_studyRecord :: 'r
  call_seriesRecord :: 'r

definition do_call :: "'r AddCall \<Rightarrow> 'r vtkDICOMDirectory \<Rightarrow> 'r vtkDICOMDirectory result" where
  "do_call c this = AddSeriesFileNames (call_patient c) (call_study c) (call_files c)
     (call_patientRecord c) (call_studyRecord c) (call_seriesRecord c) this"

text \<open>A sequence of calls all of which succeed; \<open>None\<close> as soon as one does not.\<close>

fun successful_calls :: "'r AddCall list \<Rightarrow> 'r vtkDICOMDirectory \<Rightarrow> 'r vtkDICOMDirectory option" where
  "successful_calls [] this = Some this"
| "successful_calls (c # cs) this =
     (case do_call c this of Ok s \<Rightarrow> successful_calls cs s | _ \<Rightarrow> None)"


section \<open>Grouping and sorting loose files: SortFiles\<close>

text \<open>
  Modelled from the spec: \<^verbatim>\<open>vtkDICOMValue\<close> (its declaration is not among the
  sources). An attribute value is either absent (an invalid value, whose
  \<^verbatim>\<open>GetCharData\<close> is the null pointer) or present with a character string.
\<close>

type_synonym vtkDICOMValue = "string option"

definition IsValid :: "vtkDICOMValue \<Rightarrow> bool" where
  "IsValid v = (v \<noteq> None)"

text \<open>The idiom \<^verbatim>\<open>p = (p ? p : "")\<close>.\<close>

definition or_empty :: "vtkDICOMValue \<Rightarrow> string" where
  "or_empty v = (case v of None \<Rightarrow> [] | Some s \<Rightarrow> s)"

text \<open>
  The C library's \<^verbatim>\<open>strcmp\<close> on strings without an embedded NUL: the difference of
  the first two bytes that differ, read as unsigned. Only its sign is used by the code.
\<close>

fun strcmp :: "string \<Rightarrow> string \<Rightarrow> int" where
  "strcmp [] [] = 0"
| "strcmp [] (y # ys) = - int (of_char y)"
| "strcmp (x # xs) [] = int (of_char x)"
| "strcmp (x # xs) (y # ys) =
     (if x = y then strcmp xs ys else int (of_char x) - int (of_char y))"

text \<open>A C string holds no NUL byte.\<close>

definition c_string :: "string \<Rightarrow> bool" where
  "c_string s = (CHR 0x00 \<notin> set s)"

record FileInfo =
  InstanceNumber :: "32 word"
  FileName :: string

record 'r SeriesInfo =
  PatientRecord :: 'r
  PatientName :: vtkDICOMValue
  PatientID :: vtkDICOMValue
  StudyRecord :: 'r
  StudyDate :: vtkDICOMValue
  StudyTime :: vtkDICOMValue
  StudyUID :: vtkDICOMValue
  SeriesRecord :: 'r
  SeriesUID :: vtkDICOMValue
  SeriesNumber :: "32 word"
  Files :: "FileInfo list"
  QueryMatched :: bool

definition CompareInstance :: "FileInfo \<Rightarrow> FileInfo \<Rightarrow> bool" where
  "CompareInstance fi1 fi2 = (InstanceNumber fi1 < InstanceNumber fi2)"

text \<open>
  \<^verbatim>\<open>std::stable_sort\<close> with a comparator \<open>lt\<close>: the one ordering of the elements that
  is sorted for \<open>lt\<close> and keeps equivalent elements in their input order, computed here
  by insertion from the right.
\<close>

fun stable_insert :: "('a \<Rightarrow> 'a \<Rightarrow> bool) \<Rightarrow> 'a \<Rightarrow> 'a list \<Rightarrow> 'a list" where
  "stable_insert lt x [] = [x]"
| "stable_insert lt x (y # ys) = (if lt y x then y # stable_insert lt x ys else x # y # ys)"

definition stable_sort :: "('a \<Rightarrow> 'a \<Rightarrow> bool) \<Rightarrow> 'a list \<Rightarrow> 'a list" where
  "stable_sort lt xs = foldr (stable_insert lt) xs []"

text \<open>
  What the parser leaves behind for one file, as far as \<^verbatim>\<open>SortFiles\<close> reads it:
  the outcome of \<^verbatim>\<open>vtkDICOMUtilities::IsDICOMFile\<close>, the parser's flags and error
  code, whether the parser raised an \<^verbatim>\<open>ErrorEvent\<close> (which \<^verbatim>\<open>RelayError\<close>
  turns into \<^verbatim>\<open>SetErrorCode(parser->GetErrorCode())\<close>), the attribute values, and the
  three records that \<^verbatim>\<open>FillPatientRecord\<close>, \<^verbatim>\<open>FillStudyRecord\<close> and
  \<^verbatim>\<open>FillSeriesRecord\<close> copy out of the meta data.
\<close>

record 'r MetaData =
  IsDICOMFile :: bool
  PixelDataFound :: bool
  ParserErrorCode :: nat
  ParserErrorEvent :: bool
  ParserQueryMatched :: bool
  meta_InstanceNumber :: "32 word"
  meta_PatientName :: vtkDICOMValue
  meta_PatientID :: vtkDICOMValue
  meta_StudyDate :: vtkDICOMValue
  meta_StudyTime :: vtkDICOMValue
  meta_StudyInstanceUID :: vtkDICOMValue
  meta_SeriesInstanceUID :: vtkDICOMValue
  meta_SeriesNumber :: "32 word"
  meta_PatientRecord :: 'r
  meta_StudyRecord :: 'r
  meta_SeriesRecord :: 'r

text \<open>
  The comparison cascade of the search loop, for the file with meta data \<open>meta\<close> against
  the list element \<open>li\<close>. \<^verbatim>\<open>vtkDICOMUtilities::CompareUIDs\<close> is not among the sources
  and is the parameter \<open>CompareUIDs\<close>; it receives the two character pointers, either of
  which may be null.
\<close>

definition compare_patient :: "'r MetaData \<Rightarrow> 'r SeriesInfo \<Rightarrow> int" where
  "compare_patient meta li =
    (let patientName = or_empty (meta_PatientName meta);
         patientID = or_empty (meta_PatientID meta);
         patientName2 = or_empty (PatientName li);
         patientID2 = or_empty (PatientID li);
         c = strcmp patientID2 patientID
     in if c \<noteq> 0 \<or> patientID = [] then
          (let c2 = strcmp patientName2 patientName in (if c2 = 0 then c else c2))
        else c)"

definition compare_study_date :: "'r MetaData \<Rightarrow> 'r SeriesInfo \<Rightarrow> int" where
  "compare_study_date meta li =
    (case (meta_StudyDate meta, StudyDate li) of
       (Some studyDate, Some studyDate2) \<Rightarrow>
         (let c2 = strcmp studyDate2 studyDate
          in if c2 = 0 then
               (case (StudyTime li, meta_StudyTime meta) of
                  (Some studyTime2, Some studyTime) \<Rightarrow> strcmp studyTime studyTime2
                | _ \<Rightarrow> c2)
             else c2)
     | _ \<Rightarrow> 0)"

definition compare_study ::
  "(vtkDICOMValue \<Rightarrow> vtkDICOMValue \<Rightarrow> int) \<Rightarrow> 'r MetaData \<Rightarrow> 'r SeriesInfo \<Rightarrow> int" where
  "compare_study CompareUIDs meta li =
    (let studyUID = meta_StudyInstanceUID meta;
         c = CompareUIDs studyUID (StudyUID li)
     in if c \<noteq> 0 \<or> studyUID = None then
          (let c2 = compare_study_date meta li in (if c2 = 0 then c else c2))
        else c)"

definition compare_series ::
  "(vtkDICOMValue \<Rightarrow> vtkDICOMValue \<Rightarrow> int) \<Rightarrow> 'r MetaData \<Rightarrow> 'r SeriesInfo \<Rightarrow> int" where
  "compare_series CompareUIDs meta li =
    (let seriesUID = meta_SeriesInstanceUID meta;
         c = CompareUIDs seriesUID (SeriesUID li)
     in if c \<noteq> 0 \<or> seriesUID = None then
          (let c2 = sint (SeriesNumber li - meta_SeriesNumber meta) in (if c2 = 0 then c else c2))
        else c)"

definition compare_group ::
  "(vtkDICOMValue \<Rightarrow> vtkDICOMValue \<Rightarrow> int) \<Rightarrow> 'r MetaData \<Rightarrow> 'r SeriesInfo \<Rightarrow> int" where
  "compare_group CompareUIDs meta li =
    (let c = compare_patient meta li
     in if c = 0 then
          (let c = compare_study CompareUIDs meta li
           in if c = 0 then compare_series CompareUIDs meta li else c)
        else c)"

text \<open>The element inserted when no series was found. \<^verbatim>\<open>StudyTime\<close> is not assigned.\<close>

definition new_group :: "'r MetaData \<Rightarrow> FileInfo \<Rightarrow> bool \<Rightarrow> 'r SeriesInfo" where
  "new_group meta fileInfo queryMatched =
    \<lparr>PatientRecord = meta_PatientRecord meta,
     PatientName = meta_PatientName meta,
     PatientID = meta_PatientID meta,
     StudyRecord = meta_StudyRecord meta,
     StudyDate = meta_StudyDate meta,
     StudyTime = None,
     StudyUID = meta_StudyInstanceUID meta,
     SeriesRecord = meta_SeriesRecord meta,
     SeriesUID = meta_SeriesInstanceUID meta,
     SeriesNumber = meta_SeriesNumber meta,
     Files = [fileInfo],
     QueryMatched = queryMatched\<rparr>"

definition join_group :: "FileInfo \<Rightarrow> bool \<Rightarrow> 'r SeriesInfo \<Rightarrow> 'r SeriesInfo" where
  "join_group fileInfo queryMatched li =
     li\<lparr>Files := Files li @ [fileInfo], QueryMatched := (QueryMatched li \<or> queryMatched)\<rparr>"

text \<open>
  The search loop over \<^verbatim>\<open>sortedFiles\<close> together with the insertion that follows it:
  the file joins the first element that compares equal when its series UID is present,
  and otherwise a new element is inserted before the first element with \<open>c \<ge> 0\<close>, or at
  the end.
\<close>

fun insert_file ::
  "(vtkDICOMValue \<Rightarrow> vtkDICOMValue \<Rightarrow> int) \<Rightarrow> 'r MetaData \<Rightarrow> FileInfo \<Rightarrow> bool \<Rightarrow>
   'r SeriesInfo list \<Rightarrow> 'r SeriesInfo list" where
  "insert_file CompareUIDs meta fileInfo queryMatched [] = [new_group meta fileInfo queryMatched]"
| "insert_file CompareUIDs meta fileInfo queryMatched (li # rest) =
    (let c = compare_group CompareUIDs meta li
     in if c = 0 \<and> meta_SeriesInstanceUID meta \<noteq> None then
          join_group fileInfo queryMatched li # rest
        else if c \<ge> 0 then
          new_group meta fileInfo queryMatched # li # rest
        else li # insert_file CompareUIDs meta fileInfo queryMatched rest)"

text \<open>
  One record of the \<^verbatim>\<open>DirectoryRecordSequence\<close> of a DICOMDIR, as far as the decoder
  reads it, with the item itself (\<open>RecordItem\<close>) that ends up in the tables. The
  unsigned offsets are only compared and looked up, never computed with, so they are
  natural numbers.
\<close>

record 'r DirectoryRecord =
  ByteOffset :: nat
  OffsetOfTheNextDirectoryRecord :: nat
  OffsetOfReferencedLowerLevelDirectoryEntity :: nat
  DirectoryRecordType :: string
  ReferencedFileID :: "string list option"
  RecordItem :: 'r

text \<open>What the parser leaves behind for a DICOMDIR file.\<close>

record 'r DirectoryMetaData =
  dir_ErrorCode :: nat
  dir_ErrorEvent :: bool
  dir_FileSetID :: "string option"
  DirectoryRecordSequence :: "'r DirectoryRecord list"
  OffsetOfTheFirstDirectoryRecordOfTheRootDirectoryEntity :: nat

text \<open>
  The collaborators that are not among the sources: the parser run on a file or on a
  DICOMDIR, \<^verbatim>\<open>vtkDICOMUtilities::CompareUIDs\<close> and \<^verbatim>\<open>PatternMatches\<close>, the
  observers of the progress events (which may set \<^verbatim>\<open>AbortExecute\<close> while the named
  file or directory is being processed), and the file system seen through
  \<^verbatim>\<open>vtksys\<close>. \<open>JoinPath env dirname comps\<close> stands for splitting \<open>dirname\<close>,
  dropping an empty last component, pushing \<open>comps\<close> and joining again;
  \<open>LoadDirectory\<close> is \<^verbatim>\<open>vtksys::Directory::Load\<close> with the entries it lists;
  \<open>CannotOpenFileError\<close> is the constant of \<^verbatim>\<open>vtkErrorCode\<close>.
\<close>

record 'r Environment =
  ParseFile :: "string \<Rightarrow> 'r MetaData"
  ParseDirectoryFile :: "string \<Rightarrow> 'r DirectoryMetaData"
  CompareUIDs :: "vtkDICOMValue \<Rightarrow> vtkDICOMValue \<Rightarrow> int"
  PatternMatches :: "string \<Rightarrow> string \<Rightarrow> bool"
  AbortRequested :: "string \<Rightarrow> bool"
  GetRealPath :: "string \<Rightarrow> string"
  FileExists :: "string \<Rightarrow> bool"
  FileIsSymlink :: "string \<Rightarrow> bool"
  FileIsDirectory :: "string \<Rightarrow> bool"
  LoadDirectory :: "string \<Rightarrow> string list option"
  JoinPath :: "string \<Rightarrow> string list \<Rightarrow> string"
  CannotOpenFileError :: nat

text \<open>\<^verbatim>\<open>RelayError\<close>, the observer of the parser's error events.\<close>

definition RelayError :: "bool \<Rightarrow> nat \<Rightarrow> 'r vtkDICOMDirectory \<Rightarrow> 'r vtkDICOMDirectory" where
  "RelayError event code this = (if event then this\<lparr>ErrorCode := code\<rparr> else this)"

text \<open>
  The abort check: \<^verbatim>\<open>UpdateProgress\<close> is only called while \<^verbatim>\<open>AbortExecute\<close> is
  clear, and an observer may set the flag during the call. In \<^verbatim>\<open>SortFiles\<close> the call is
  made at 1 percent steps; the model lets the observer act at every file.
\<close>

definition check_abort :: "'r Environment \<Rightarrow> string \<Rightarrow> 'r vtkDICOMDirectory \<Rightarrow> 'r vtkDICOMDirectory" where
  "check_abort env name this =
     (if \<not> AbortExecute this then this\<lparr>AbortExecute := AbortRequested env name\<rparr> else this)"

text \<open>The \<^verbatim>\<open>FileInfo\<close> built for a file that passed the checks.\<close>

definition file_info :: "'r Environment \<Rightarrow> string \<Rightarrow> FileInfo" where
  "file_info env fileName =
     \<lparr>InstanceNumber = meta_InstanceNumber (ParseFile env fileName), FileName = fileName\<rparr>"

text \<open>
  The first loop of \<^verbatim>\<open>SortFiles\<close>. The second component is \<open>None\<close> when the loop left
  the function through \<^verbatim>\<open>return\<close> on an abort.
\<close>

fun group_files ::
  "'r Environment \<Rightarrow> string list \<Rightarrow> 'r vtkDICOMDirectory \<Rightarrow> 'r SeriesInfo list \<Rightarrow>
   'r vtkDICOMDirectory \<times> 'r SeriesInfo list option" where
  "group_files env [] this sortedFiles = (this, Some sortedFiles)"
| "group_files env (fileName # rest) this sortedFiles =
    (let meta = ParseFile env fileName
     in if \<not> IsDICOMFile meta then group_files env rest this sortedFiles
        else
          (let this1 = RelayError (ParserErrorEvent meta) (ParserErrorCode meta) this;
               this2 = (if \<not> PixelDataFound meta \<and> ErrorCode this1 = 0
                        then this1\<lparr>ErrorCode := ParserErrorCode meta\<rparr> else this1)
           in if \<not> PixelDataFound meta \<and> (ErrorCode this2 \<noteq> 0 \<or> RequirePixelData this2)
              then group_files env rest this2 sortedFiles
              else
                (let this3 = check_abort env fileName this2
                 in if AbortExecute this3 then (this3, None)
                    else
                      (let queryMatched = (\<not> HasQuery this3 \<or> ParserQueryMatched meta)
                       in if \<not> queryMatched \<and> FindLevel this3 = IMAGE
                          then group_files env rest this3 sortedFiles
                          else
                            (let fileInfo = file_info env fileName
                             in group_files env rest this3
                                  (insert_file (CompareUIDs env) meta fileInfo queryMatched
                                     sortedFiles))))))"

text \<open>
  The second loop of \<^verbatim>\<open>SortFiles\<close>, with its running counters and the last patient ID
  and study UID seen. \<open>None\<close> is an out-of-bounds access in \<^verbatim>\<open>AddSeriesFileNames\<close>; a
  rejected call has logged its error and the loop goes on.
\<close>

fun add_groups ::
  "'r SeriesInfo list \<Rightarrow> int \<Rightarrow> int \<Rightarrow> vtkDICOMValue \<Rightarrow> vtkDICOMValue \<Rightarrow>
   'r vtkDICOMDirectory \<Rightarrow> 'r vtkDICOMDirectory option" where
  "add_groups [] patientCount studyCount lastStudyUID lastPatientID this = Some this"
| "add_groups (v # rest) patientCount studyCount lastStudyUID lastPatientID this =
    (if \<not> QueryMatched v then
       add_groups rest patientCount studyCount lastStudyUID lastPatientID this
     else
       (let files = stable_sort CompareInstance (Files v);
            (patientCount', studyCount', lastStudyUID', lastPatientID') =
              (if \<not> IsValid lastPatientID \<or> PatientID v \<noteq> lastPatientID then
                 (patientCount + 1, studyCount + 1, StudyUID v, PatientID v)
               else if \<not> IsValid lastStudyUID \<or> StudyUID v \<noteq> lastStudyUID then
                 (patientCount, studyCount + 1, StudyUID v, lastPatientID)
               else (patientCount, studyCount, lastStudyUID, lastPatientID))
        in case AddSeriesFileNames (patientCount' - 1) (studyCount' - 1) (map FileName files)
                  (PatientRecord v) (StudyRecord v) (SeriesRecord v) this of
             Ok s \<Rightarrow> add_groups rest patientCount' studyCount' lastStudyUID' lastPatientID' s
           | Rejected s \<Rightarrow> add_groups rest patientCount' studyCount' lastStudyUID' lastPatientID' s
           | OutOfBounds \<Rightarrow> None))"

definition SortFiles ::
  "'r Environment \<Rightarrow> string list \<Rightarrow> 'r vtkDICOMDirectory \<Rightarrow> 'r vtkDICOMDirectory option" where
  "SortFiles env input this =
    (case group_files env input this [] of
       (this1, None) \<Rightarrow> Some this1
     | (this1, Some sortedFiles) \<Rightarrow>
         add_groups sortedFiles (int (length (Patients this1))) (int (length (Studies this1)))
           None None this1)"


section \<open>Decoding a DICOMDIR: ProcessDirectoryFile\<close>

text \<open>The value \<^verbatim>\<open>0xffffffffu\<close> that marks a used entry of the offset map.\<close>

definition used_mark :: nat where
  "used_mark = 4294967295"

text \<open>
  The locals of the decoding loop. \<open>offsetToIndexMap\<close> is the \<^verbatim>\<open>std::map\<close> as an
  association list, \<open>files_out\<close> is the \<^verbatim>\<open>files\<close> argument (\<open>None\<close> for the null
  pointer) and \<open>directory\<close> is \<^verbatim>\<open>this\<close>. The offset stack is passed beside this
  record, its head being the back of the vector.
\<close>

record 'r DecodeState =
  offset :: nat
  offsetToIndexMap :: "(nat \<times> nat) list"
  patientIdx :: int
  studyIdx :: int
  patientItem :: nat
  studyItem :: nat
  seriesItem :: nat
  fileNames :: "string list"
  entryType :: string
  files_out :: "string list option"
  directory :: "'r vtkDICOMDirectory"

text \<open>
  The body of the inner loop for the stack entry \<open>(off, ty)\<close>: leaving a patient or a
  study advances the running index, leaving a series hands the collected file names over.
  \<open>None\<close> is an out-of-bounds access in \<^verbatim>\<open>AddSeriesFileNames\<close>; a rejected call has
  logged its error and the loop goes on.
\<close>

definition pop_entry ::
  "'r DirectoryRecord list \<Rightarrow> nat \<Rightarrow> string \<Rightarrow> 'r DecodeState \<Rightarrow> 'r DecodeState option" where
  "pop_entry items off ty st =
    (let st1 = st\<lparr>offset := off, entryType := ty\<rparr>
     in if ty = ''PATIENT'' then Some (st1\<lparr>patientIdx := patientIdx st1 + 1\<rparr>)
        else if ty = ''STUDY'' then Some (st1\<lparr>studyIdx := studyIdx st1 + 1\<rparr>)
        else if ty = ''SERIES'' then
          (case files_out st1 of
             Some fs \<Rightarrow> Some (st1\<lparr>files_out := Some (fs @ fileNames st1), fileNames := []\<rparr>)
           | None \<Rightarrow>
               (case AddSeriesFileNames (patientIdx st1) (studyIdx st1) (fileNames st1)
                       (RecordItem (items ! patientItem st1))
                       (RecordItem (items ! studyItem st1))
                       (RecordItem (items ! seriesItem st1)) (directory st1) of
                  Ok d \<Rightarrow> Some (st1\<lparr>directory := d, fileNames := []\<rparr>)
                | Rejected d \<Rightarrow> Some (st1\<lparr>directory := d, fileNames := []\<rparr>)
                | OutOfBounds \<Rightarrow> None))
        else Some st1)"

text \<open>The inner loop: pop the stack until the next offset is not zero.\<close>

fun pop_stack ::
  "'r DirectoryRecord list \<Rightarrow> (nat \<times> string) list \<Rightarrow> 'r DecodeState \<Rightarrow>
   ((nat \<times> string) list \<times> 'r DecodeState) option" where
  "pop_stack items [] st = Some ([], st)"
| "pop_stack items ((off, ty) # stk) st =
    (if offset st \<noteq> 0 then Some ((off, ty) # stk, st)
     else (case pop_entry items off ty st of
             None \<Rightarrow> None
           | Some st1 \<Rightarrow> pop_stack items stk st1))"

text \<open>The lookup \<^verbatim>\<open>offsetToIndexMap.find(offset)\<close> with the test for a used entry.\<close>

definition find_unused :: "(nat \<times> nat) list \<Rightarrow> nat \<Rightarrow> nat option" where
  "find_unused m off =
     (case map_of m off of None \<Rightarrow> None | Some j \<Rightarrow> if j \<noteq> used_mark then Some j else None)"

text \<open>What the loop body does with the item \<open>j\<close> it found.\<close>

definition read_item ::
  "'r Environment \<Rightarrow> string \<Rightarrow> 'r DirectoryRecord list \<Rightarrow> nat \<Rightarrow> 'r DecodeState \<Rightarrow> 'r DecodeState" where
  "read_item env dirname items j st =
    (let st1 = st\<lparr>offsetToIndexMap := AList.update (offset st) used_mark (offsetToIndexMap st),
                  offset := OffsetOfTheNextDirectoryRecord (items ! j),
                  entryType := DirectoryRecordType (items ! j)\<rparr>
     in if entryType st1 = ''PATIENT'' then st1\<lparr>patientItem := j\<rparr>
        else if entryType st1 = ''STUDY'' then st1\<lparr>studyItem := j\<rparr>
        else if entryType st1 = ''SERIES'' then st1\<lparr>seriesItem := j\<rparr>
        else if entryType st1 = ''IMAGE'' \<or> \<not> RequirePixelData (directory st1) then
          (case ReferencedFileID (items ! j) of
             None \<Rightarrow> st1
           | Some fileID \<Rightarrow>
               if fileID \<noteq> [] then st1\<lparr>fileNames := fileNames st1 @ [JoinPath env dirname fileID]\<rparr>
               else st1)
        else st1)"

text \<open>One round of the outer loop, entered with \<open>offset \<noteq> 0\<close>.\<close>

definition decode_step ::
  "'r Environment \<Rightarrow> string \<Rightarrow> 'r DirectoryRecord list \<Rightarrow>
   (nat \<times> string) list \<times> 'r DecodeState \<Rightarrow> ((nat \<times> string) list \<times> 'r DecodeState) option" where
  "decode_step env dirname items p =
    (case p of (stk, st) \<Rightarrow>
      (case find_unused (offsetToIndexMap st) (offset st) of
         None \<Rightarrow> pop_stack items stk (st\<lparr>offset := 0\<rparr>)
       | Some j \<Rightarrow>
          (let offsetOfChild = OffsetOfReferencedLowerLevelDirectoryEntity (items ! j);
               st1 = read_item env dirname items j st
           in if offsetOfChild \<noteq> 0 then
                Some ((offset st1, entryType st1) # stk, st1\<lparr>offset := offsetOfChild\<rparr>)
              else pop_stack items stk st1)))"

text \<open>The number of entries of the offset map that are not marked as used.\<close>

definition unused :: "(nat \<times> nat) list \<Rightarrow> nat" where
  "unused m = length (filter (\<lambda>e. snd e \<noteq> used_mark) m)"

definition decode_measure :: "(nat \<times> string) list \<times> 'r DecodeState \<Rightarrow> nat" where
  "decode_measure p =
     2 * unused (offsetToIndexMap (snd p)) + length (fst p) + (if offset (snd p) = 0 then 0 else 1)"


text \<open>Facts about one round of the loop, for its termination.\<close>

lemma pop_entry_map:
  "pop_entry items off ty st = Some st1 \<Longrightarrow> offsetToIndexMap st1 = offsetToIndexMap st"
  by (auto simp add: pop_entry_def Let_def split: if_splits option.splits result.splits)

lemma pop_stack_shrinks:
  "pop_stack items stk st = Some (stk', st') \<Longrightarrow>
     length stk' \<le> length stk \<and> offsetToIndexMap st' = offsetToIndexMap st"
proof (induction items stk st rule: pop_stack.induct)
  case (1 items st)
  then show ?case by simp
next
  case (2 items off ty stk st)
  show ?case
  proof (cases "offset st \<noteq> 0")
    case True
    with "2.prems" show ?thesis by auto
  next
    case False
    with "2.prems" obtain st1 where st1: "pop_entry items off ty st = Some st1"
      "pop_stack items stk st1 = Some (stk', st')"
      by (auto split: option.splits)
    from "2.IH" [OF _ st1] False pop_entry_map [OF st1(1)] show ?thesis by simp
  qed
qed

lemma pop_stack_pops:
  assumes "pop_stack items (e # stk) st = Some (stk', st')" and "offset st = 0"
  shows "length stk' \<le> length stk"
proof -
  obtain off ty where e: "e = (off, ty)" by (cases e)
  from assms(1) [unfolded e] assms(2) show ?thesis
    by (auto split: option.splits dest!: pop_stack_shrinks)
qed

lemma unused_update:
  "map_of m off = Some j \<Longrightarrow> j \<noteq> used_mark \<Longrightarrow>
     Suc (unused (AList.update off used_mark m)) = unused m"
  by (induction m) (auto simp add: unused_def)

lemma read_item_map:
  "offsetToIndexMap (read_item env dirname items j st) =
     AList.update (offset st) used_mark (offsetToIndexMap st)"
  by (simp add: read_item_def Let_def split: option.splits)

lemma decode_step_decreases:
  assumes "decode_step env dirname items p = Some q" and nz: "offset (snd p) \<noteq> 0"
  shows "decode_measure q < decode_measure p"
proof -
  obtain stk st where p: "p = (stk, st)" by (cases p)
  obtain stk' st' where q: "q = (stk', st')" by (cases q)
  show ?thesis
  proof (cases "find_unused (offsetToIndexMap st) (offset st)")
    case None
    with assms(1) p q have pop: "pop_stack items stk (st\<lparr>offset := 0\<rparr>) = Some (stk', st')"
      by (simp add: decode_step_def)
    show ?thesis
    proof (cases stk)
      case Nil
      with pop p q nz show ?thesis by (auto simp add: decode_measure_def)
    next
      case (Cons e rest)
      from pop_stack_pops [OF pop [unfolded Cons]] pop_stack_shrinks [OF pop] Cons p q nz
      show ?thesis by (simp add: decode_measure_def)
    qed
  next
    case (Some j)
    then have look: "map_of (offsetToIndexMap st) (offset st) = Some j" "j \<noteq> used_mark"
      by (auto simp add: find_unused_def split: option.splits if_splits)
    note dec = unused_update [OF look]
    show ?thesis
    proof (cases "OffsetOfReferencedLowerLevelDirectoryEntity (items ! j) \<noteq> 0")
      case True
      with assms(1) p q Some dec nz show ?thesis
        by (auto simp add: decode_step_def decode_measure_def Let_def read_item_map)
    next
      case False
      with assms(1) p q Some have "pop_stack items stk (read_item env dirname items j st) = Some (stk', st')"
        by (simp add: decode_step_def Let_def)
      from pop_stack_shrinks [OF this] dec p q nz show ?thesis
        by (simp add: decode_measure_def read_item_map)
    qed
  qed
qed

text \<open>
  The outer loop \<^verbatim>\<open>while (offset != 0)\<close>. It ends because every round either
  marks an entry of the map as used or shortens the stack.
\<close>

function decode_loop ::
  "'r Environment \<Rightarrow> string \<Rightarrow> 'r DirectoryRecord list \<Rightarrow>
   (nat \<times> string) list \<times> 'r DecodeState \<Rightarrow> ((nat \<times> string) list \<times> 'r DecodeState) option" where
  "decode_loop env dirname items p =
    (if offset (snd p) = 0 then Some p
     else (case decode_step env dirname items p of
             None \<Rightarrow> None
           | Some q \<Rightarrow> decode_loop env dirname items q))"
  by pat_completeness auto
termination
  by (relation "measure (\<lambda>(env, dirname, items, p). decode_measure p)")
     (auto intro: decode_step_decreases)

declare decode_loop.simps [simp del]


definition build_map :: "'r DirectoryRecord list \<Rightarrow> (nat \<times> nat) list" where
  "build_map items =
     fold (\<lambda>i m. AList.update (ByteOffset (items ! i)) i m) [0..<length items] []"

text \<open>
  \<^verbatim>\<open>ProcessDirectoryFile\<close>: the result is the object and the \<^verbatim>\<open>files\<close> array, or
  \<open>None\<close> after an out-of-bounds access in \<^verbatim>\<open>AddSeriesFileNames\<close>.
\<close>

definition ProcessDirectoryFile ::
  "'r Environment \<Rightarrow> string \<Rightarrow> 'r DirectoryMetaData \<Rightarrow> string list option \<Rightarrow>
   'r vtkDICOMDirectory \<Rightarrow> ('r vtkDICOMDirectory \<times> string list option) option" where
  "ProcessDirectoryFile env dirname meta files this =
    (let this1 = (case dir_FileSetID meta of
                    None \<Rightarrow> this
                  | Some fileSetID \<Rightarrow> this\<lparr>FileSetID := Some fileSetID\<rparr>);
         items = DirectoryRecordSequence meta;
         n = length items;
         offset0 = OffsetOfTheFirstDirectoryRecordOfTheRootDirectoryEntity meta;
         offset1 = (if offset0 = 0 \<and> n > 0 then ByteOffset (items ! 0) else offset0);
         st = \<lparr>offset = offset1,
               offsetToIndexMap = build_map items,
               patientIdx = int (length (Patients this1)),
               studyIdx = int (length (Studies this1)),
               patientItem = 0, studyItem = 0, seriesItem = 0,
               fileNames = [], entryType = [],
               files_out = files,
               directory = this1\<rparr>
     in case decode_loop env dirname items ([], st) of
          None \<Rightarrow> None
        | Some (stk, st') \<Rightarrow> Some (directory st', files_out st'))"

section \<open>Walking the directories: ProcessDirectory\<close>

text \<open>
  \<^verbatim>\<open>std::lower_bound\<close> on a sorted vector: the position of the first element that is
  not less than the value. \<^verbatim>\<open>Visited\<close> is only changed by the insertion below, so it is
  sorted whenever it started sorted.
\<close>

definition lower_bound :: "string list \<Rightarrow> string \<Rightarrow> nat" where
  "lower_bound xs x = length (takeWhile (\<lambda>y. y < x) xs)"

text \<open>
  The guard at the head of \<^verbatim>\<open>ProcessDirectory\<close>: \<open>None\<close> when the directory has been
  visited, else the object with the real path inserted at the position found.
\<close>

definition mark_visited ::
  "'r Environment \<Rightarrow> string \<Rightarrow> 'r vtkDICOMDirectory \<Rightarrow> 'r vtkDICOMDirectory option" where
  "mark_visited env dirname this =
    (let realname = GetRealPath env dirname;
         viter = lower_bound (Visited this) realname
     in if viter = length (Visited this) \<or> Visited this ! viter < realname then
          Some (this\<lparr>Visited := take viter (Visited this) @ realname # drop viter (Visited this)\<rparr>)
        else None)"

text \<open>
  The DICOMDIR stage of \<^verbatim>\<open>ProcessDirectory\<close>: \<open>Inl\<close> when the function returns from
  inside it, \<open>Inr\<close> when control goes on to the enumeration of the directory.
\<close>

definition directory_file_stage ::
  "'r Environment \<Rightarrow> string \<Rightarrow> int \<Rightarrow> 'r vtkDICOMDirectory \<times> string list \<Rightarrow>
   ('r vtkDICOMDirectory \<times> string list) option + 'r vtkDICOMDirectory \<times> string list" where
  "directory_file_stage env dirname depth p =
    (case p of (this, files) \<Rightarrow>
      if \<not> HasInputFileNames this \<and> depth = ScanDepth this then
        (let dicomdir = JoinPath env dirname [''DICOMDIR'']
         in if FileExists env dicomdir then
              (let meta = ParseDirectoryFile env dicomdir;
                   this1 = RelayError (dir_ErrorEvent meta) (dir_ErrorCode meta) this;
                   errorCode = dir_ErrorCode meta
               in if errorCode \<noteq> 0 \<and> depth = 0 then
                    Inl (Some (this1\<lparr>ErrorCode := errorCode\<rparr>, files))
                  else if errorCode = 0 then
                    (if HasQuery this1 then
                       Inl (case ProcessDirectoryFile env dirname meta (Some files) this1 of
                              None \<Rightarrow> None
                            | Some (this2, files2) \<Rightarrow>
                                Some (this2, (case files2 of None \<Rightarrow> files | Some fs \<Rightarrow> fs)))
                     else
                       Inl (case ProcessDirectoryFile env dirname meta None this1 of
                              None \<Rightarrow> None
                            | Some (this2, files2) \<Rightarrow> Some (this2, files)))
                  else Inr (this1, files))
            else Inr (this, files))
      else Inr (this, files))"

text \<open>
  \<^verbatim>\<open>ProcessDirectory\<close> in three parts: the head with the visited guard and the
  DICOMDIR stage, the enumeration of the directory that follows it, and the loop over the
  entries. The pair holds the object and the \<^verbatim>\<open>files\<close> array; \<open>None\<close> is an
  out-of-bounds access while a DICOMDIR was decoded. A directory that cannot be loaded
  below the initial depth lists no entries.
\<close>

function ProcessDirectory ::
    "'r Environment \<Rightarrow> string \<Rightarrow> int \<Rightarrow> 'r vtkDICOMDirectory \<times> string list \<Rightarrow>
     ('r vtkDICOMDirectory \<times> string list) option"
  and enumerate_directory ::
    "'r Environment \<Rightarrow> string \<Rightarrow> int \<Rightarrow> 'r vtkDICOMDirectory \<times> string list \<Rightarrow>
     ('r vtkDICOMDirectory \<times> string list) option"
  and scan_entries ::
    "'r Environment \<Rightarrow> string \<Rightarrow> int \<Rightarrow> string list \<Rightarrow> 'r vtkDICOMDirectory \<times> string list \<Rightarrow>
     ('r vtkDICOMDirectory \<times> string list) option" where
  "ProcessDirectory env dirname depth p =
    (case mark_visited env dirname (fst p) of
       None \<Rightarrow> Some p
     | Some this1 \<Rightarrow>
        (case directory_file_stage env dirname depth (this1, snd p) of
           Inl r \<Rightarrow> r
         | Inr q \<Rightarrow> enumerate_directory env dirname depth q))"
| "enumerate_directory env dirname depth q =
    (if depth \<le> 0 then Some q
     else
       (let this3 = check_abort env dirname (fst q)
        in if AbortExecute this3 then Some (this3, snd q)
           else
             (case LoadDirectory env dirname of
                None \<Rightarrow>
                  if depth = ScanDepth this3 then
                    Some (this3\<lparr>ErrorCode := CannotOpenFileError env\<rparr>, snd q)
                  else scan_entries env dirname depth [] (this3, snd q)
              | Some names \<Rightarrow> scan_entries env dirname depth names (this3, snd q))))"
| "scan_entries env dirname depth [] p = Some p"
| "scan_entries env dirname depth (fname # rest) p =
    (if (fname = [] \<or> hd fname \<noteq> CHR ''.'') \<and> fname \<noteq> ''DICOMDIR'' then
       (let fileString = JoinPath env dirname [fname]
        in if \<not> FollowSymlinks (fst p) \<and> FileIsSymlink env fileString then
             scan_entries env dirname depth rest p
           else if FileIsDirectory env fileString then
             (if depth > 1 then
                (case ProcessDirectory env fileString (depth - 1) p of
                   None \<Rightarrow> None
                 | Some q \<Rightarrow> scan_entries env dirname depth rest q)
              else scan_entries env dirname depth rest p)
           else if (case FilePattern (fst p) of
                      None \<Rightarrow> True
                    | Some pat \<Rightarrow> pat = [] \<or> PatternMatches env pat fileString) then
             scan_entries env dirname depth rest (fst p, snd p @ [fileString])
           else scan_entries env dirname depth rest p)
     else scan_entries env dirname depth rest p)"
  by pat_completeness auto
termination
  by (relation "measures
        [\<lambda>x. case x of Inl (env, dirname, depth, p) \<Rightarrow> nat depth
                     | Inr (Inl (env, dirname, depth, p)) \<Rightarrow> nat depth
                     | Inr (Inr (env, dirname, depth, names, p)) \<Rightarrow> nat depth,
         \<lambda>x. case x of Inl (env, dirname, depth, p) \<Rightarrow> 2
                     | Inr (Inl (env, dirname, depth, p)) \<Rightarrow> 1
                     | Inr (Inr (env, dirname, depth, names, p)) \<Rightarrow> 0,
         \<lambda>x. case x of Inl (env, dirname, depth, p) \<Rightarrow> 0
                     | Inr (Inl (env, dirname, depth, p)) \<Rightarrow> 0
                     | Inr (Inr (env, dirname, depth, names, p)) \<Rightarrow> length names]")
     auto

section \<open>The record tree that a DICOMDIR describes\<close>

text \<open>
  The hierarchy that the offsets of a directory record sequence encode: a node is a
  record with the list of its children, and a forest is a list of siblings.
\<close>

datatype 'r node = Node (rec_of: "'r DirectoryRecord") (children: "'r node list")

fun records :: "'r node \<Rightarrow> 'r DirectoryRecord list" where
  "records (Node r cs) = r # concat (map records cs)"

definition forest_records :: "'r node list \<Rightarrow> 'r DirectoryRecord list" where
  "forest_records ts = concat (map records ts)"

text \<open>
  The offsets link the forest: no record sits at offset 0, the next offset of a record
  is the offset of its next sibling (0 for the last one), and its lower-level offset is
  the offset of its first child (0 without children).
\<close>

fun linked :: "'r node list \<Rightarrow> bool" where
  "linked [] = True"
| "linked (Node r cs # rest) =
    (ByteOffset r \<noteq> 0 \<and>
     OffsetOfTheNextDirectoryRecord r = (case rest of [] \<Rightarrow> 0 | t # ts \<Rightarrow> ByteOffset (rec_of t)) \<and>
     OffsetOfReferencedLowerLevelDirectoryEntity r =
       (case cs of [] \<Rightarrow> 0 | c # cs' \<Rightarrow> ByteOffset (rec_of c)) \<and>
     linked cs \<and> linked rest)"

text \<open>
  The recursive descent that the loop with its explicit stack emulates, on the state of
  the loop: read the record, descend into the children, and leave the level as the inner
  loop does when it pops the entry of the record. It gives \<open>None\<close> when the offset map
  does not lead to the record of the node.
\<close>

fun descend ::
    "'r Environment \<Rightarrow> string \<Rightarrow> 'r DirectoryRecord list \<Rightarrow> 'r node \<Rightarrow> 'r DecodeState \<Rightarrow>
     'r DecodeState option"
  and descend_all ::
    "'r Environment \<Rightarrow> string \<Rightarrow> 'r DirectoryRecord list \<Rightarrow> 'r node list \<Rightarrow> 'r DecodeState \<Rightarrow>
     'r DecodeState option" where
  "descend env dirname items (Node r cs) st =
    (case find_unused (offsetToIndexMap st) (ByteOffset r) of
       None \<Rightarrow> None
     | Some j \<Rightarrow>
        if items ! j \<noteq> r then None
        else
          (let st1 = read_item env dirname items j (st\<lparr>offset := ByteOffset r\<rparr>)
           in if cs = [] then Some st1
              else (case descend_all env dirname items cs st1 of
                      None \<Rightarrow> None
                    | Some st2 \<Rightarrow>
                        pop_entry items (OffsetOfTheNextDirectoryRecord r)
                          (DirectoryRecordType r) st2)))"
| "descend_all env dirname items [] st = Some st"
| "descend_all env dirname items (t # ts) st =
    (case descend env dirname items t st of
       None \<Rightarrow> None
     | Some st1 \<Rightarrow> descend_all env dirname items ts st1)"

text \<open>
  The same descent without offsets, indices and the map: the running patient and study
  index, the records of the active patient, study and series, the file names collected
  for the current series, and the object.
\<close>

record 'r Decoded =
  d_patientIdx :: int
  d_studyIdx :: int
  d_patient :: 'r
  d_study :: 'r
  d_series :: 'r
  d_fileNames :: "string list"
  d_directory :: "'r vtkDICOMDirectory"

definition tree_read :: "'r Environment \<Rightarrow> string \<Rightarrow> 'r DirectoryRecord \<Rightarrow> 'r Decoded \<Rightarrow> 'r Decoded" where
  "tree_read env dirname r D =
    (if DirectoryRecordType r = ''PATIENT'' then D\<lparr>d_patient := RecordItem r\<rparr>
     else if DirectoryRecordType r = ''STUDY'' then D\<lparr>d_study := RecordItem r\<rparr>
     else if DirectoryRecordType r = ''SERIES'' then D\<lparr>d_series := RecordItem r\<rparr>
     else if DirectoryRecordType r = ''IMAGE'' \<or> \<not> RequirePixelData (d_directory D) then
       (case ReferencedFileID r of
          None \<Rightarrow> D
        | Some fileID \<Rightarrow>
            if fileID \<noteq> [] then D\<lparr>d_fileNames := d_fileNames D @ [JoinPath env dirname fileID]\<rparr>
            else D)
     else D)"

definition tree_leave :: "string \<Rightarrow> 'r Decoded \<Rightarrow> 'r Decoded option" where
  "tree_leave ty D =
    (if ty = ''PATIENT'' then Some (D\<lparr>d_patientIdx := d_patientIdx D + 1\<rparr>)
     else if ty = ''STUDY'' then Some (D\<lparr>d_studyIdx := d_studyIdx D + 1\<rparr>)
     else if ty = ''SERIES'' then
       (case AddSeriesFileNames (d_patientIdx D) (d_studyIdx D) (d_fileNames D)
               (d_patient D) (d_study D) (d_series D) (d_directory D) of
          Ok d \<Rightarrow> Some (D\<lparr>d_directory := d, d_fileNames := []\<rparr>)
        | Rejected d \<Rightarrow> Some (D\<lparr>d_directory := d, d_fileNames := []\<rparr>)
        | OutOfBounds \<Rightarrow> None)
     else Some D)"

fun tree_descend :: "'r Environment \<Rightarrow> string \<Rightarrow> 'r node \<Rightarrow> 'r Decoded \<Rightarrow> 'r Decoded option"
  and tree_descend_all ::
    "'r Environment \<Rightarrow> string \<Rightarrow> 'r node list \<Rightarrow> 'r Decoded \<Rightarrow> 'r Decoded option" where
  "tree_descend env dirname (Node r cs) D =
    (let D1 = tree_read env dirname r D
     in if cs = [] then Some D1
        else (case tree_descend_all env dirname cs D1 of
                None \<Rightarrow> None
              | Some D2 \<Rightarrow> tree_leave (DirectoryRecordType r) D2))"
| "tree_descend_all env dirname [] D = Some D"
| "tree_descend_all env dirname (t # ts) D =
    (case tree_descend env dirname t D of
       None \<Rightarrow> None
     | Some D1 \<Rightarrow> tree_descend_all env dirname ts D1)"

text \<open>What the state of the loop stands for in the descent without indices.\<close>

definition abstract :: "'r DirectoryRecord list \<Rightarrow> 'r DecodeState \<Rightarrow> 'r Decoded" where
  "abstract items st =
    \<lparr>d_patientIdx = patientIdx st, d_studyIdx = studyIdx st,
     d_patient = RecordItem (items ! patientItem st),
     d_study = RecordItem (items ! studyItem st),
     d_series = RecordItem (items ! seriesItem st),
     d_fileNames = fileNames st, d_directory = directory st\<rparr>"

text \<open>
  A forest of patients over studies over series over images: the record types of the
  four levels, images without children and with a referenced file ID of at least one
  component.
\<close>

definition image_ok :: "'r node \<Rightarrow> bool" where
  "image_ok i = (DirectoryRecordType (rec_of i) = ''IMAGE'' \<and> children i = [] \<and>
     (case ReferencedFileID (rec_of i) of None \<Rightarrow> False | Some fileID \<Rightarrow> fileID \<noteq> []))"

definition series_ok :: "'r node \<Rightarrow> bool" where
  "series_ok e = (DirectoryRecordType (rec_of e) = ''SERIES'' \<and> list_all image_ok (children e))"

definition study_ok :: "'r node \<Rightarrow> bool" where
  "study_ok s = (DirectoryRecordType (rec_of s) = ''STUDY'' \<and> list_all series_ok (children s))"

definition patient_ok :: "'r node \<Rightarrow> bool" where
  "patient_ok p = (DirectoryRecordType (rec_of p) = ''PATIENT'' \<and> list_all study_ok (children p))"

text \<open>\<open>P\<close> patients, each with \<open>S\<close> studies, each with \<open>N\<close> series, each with \<open>F\<close> images.\<close>

definition uniform :: "nat \<Rightarrow> nat \<Rightarrow> nat \<Rightarrow> nat \<Rightarrow> 'r node list \<Rightarrow> bool" where
  "uniform P S N F forest =
    (length forest = P \<and>
     list_all (\<lambda>p. length (children p) = S \<and>
       list_all (\<lambda>s. length (children s) = N \<and>
         list_all (\<lambda>e. length (children e) = F) (children s)) (children p)) forest)"

text \<open>
  A record sequence that is a well-formed layout of the forest, in whatever physical
  order: the records of the sequence have distinct offsets, they are the records of the
  forest, which are linked by their offsets, and their number leaves the mark of a used
  entry free.
\<close>

definition tree_layout :: "'r DirectoryRecord list \<Rightarrow> 'r node list \<Rightarrow> bool" where
  "tree_layout items forest =
    (distinct (map ByteOffset items) \<and>
     distinct (map ByteOffset (forest_records forest)) \<and>
     set items = set (forest_records forest) \<and>
     length items \<le> used_mark \<and>
     linked forest \<and> list_all patient_ok forest)"

text \<open>Where the loop goes on after a descent: the inner loop, then the outer loop.\<close>

definition resume ::
  "'r Environment \<Rightarrow> string \<Rightarrow> 'r DirectoryRecord list \<Rightarrow> (nat \<times> string) list \<Rightarrow>
   'r DecodeState \<Rightarrow> ((nat \<times> string) list \<times> 'r DecodeState) option" where
  "resume env dirname items stk st =
    (case pop_stack items stk st of
       None \<Rightarrow> None
     | Some q \<Rightarrow> decode_loop env dirname items q)"

definition node_linked :: "'r node \<Rightarrow> bool" where
  "node_linked t =
    (ByteOffset (rec_of t) \<noteq> 0 \<and>
     OffsetOfReferencedLowerLevelDirectoryEntity (rec_of t) =
       (case children t of [] \<Rightarrow> 0 | c # cs' \<Rightarrow> ByteOffset (rec_of c)) \<and>
     linked (children t))"

text \<open>
  The offset map still leads to each of the records \<open>rs\<close>: its entry is not marked as
  used and holds the index of the record in the sequence.
\<close>

definition unread :: "'r DirectoryRecord list \<Rightarrow> (nat \<times> nat) list \<Rightarrow> 'r DirectoryRecord list \<Rightarrow> bool" where
  "unread items m rs =
     list_all (\<lambda>r. case map_of m (ByteOffset r) of
                      None \<Rightarrow> False
                    | Some j \<Rightarrow> j \<noteq> used_mark \<and> items ! j = r) rs"

definition root_offset :: "'r node list \<Rightarrow> nat" where
  "root_offset forest = (case forest of [] \<Rightarrow> 0 | p # ps \<Rightarrow> ByteOffset (rec_of p))"

text \<open>
  The calls of \<^verbatim>\<open>AddSeriesFileNames\<close> that the forest stands for, in document order:
  one call per series, with the running patient index \<open>p\<close> and study index \<open>s\<close>.
\<close>

definition image_name :: "'r Environment \<Rightarrow> string \<Rightarrow> 'r node \<Rightarrow> string" where
  "image_name env dirname i =
     JoinPath env dirname (case ReferencedFileID (rec_of i) of None \<Rightarrow> [] | Some fileID \<Rightarrow> fileID)"

definition series_call ::
  "'r Environment \<Rightarrow> string \<Rightarrow> int \<Rightarrow> int \<Rightarrow> 'r \<Rightarrow> 'r \<Rightarrow> 'r node \<Rightarrow> 'r AddCall" where
  "series_call env dirname p s pr sr e =
    \<lparr>call_patient = p, call_study = s,
     call_files = map (image_name env dirname) (children e),
     call_patientRecord = pr, call_studyRecord = sr,
     call_seriesRecord = RecordItem (rec_of e)\<rparr>"

fun study_calls ::
  "'r Environment \<Rightarrow> string \<Rightarrow> int \<Rightarrow> int \<Rightarrow> 'r \<Rightarrow> 'r node list \<Rightarrow> 'r AddCall list" where
  "study_calls env dirname p s pr [] = []"
| "study_calls env dirname p s pr (st # rest) =
     map (series_call env dirname p s pr (RecordItem (rec_of st))) (children st) @
     study_calls env dirname p (s + 1) pr rest"

fun patient_calls ::
  "'r Environment \<Rightarrow> string \<Rightarrow> int \<Rightarrow> int \<Rightarrow> 'r node list \<Rightarrow> 'r AddCall list" where
  "patient_calls env dirname p s [] = []"
| "patient_calls env dirname p s (pt # rest) =
     study_calls env dirname p s (RecordItem (rec_of pt)) (children pt) @
     patient_calls env dirname (p + 1) (s + int (length (children pt))) rest"

text \<open>No patient without a study, no study without a series, no series without an image.\<close>

definition full_levels :: "'r node list \<Rightarrow> bool" where
  "full_levels forest =
     list_all (\<lambda>p. children p \<noteq> [] \<and>
       list_all (\<lambda>s. children s \<noteq> [] \<and> list_all (\<lambda>e. children e \<noteq> []) (children s))
         (children p)) forest"

text \<open>The entries of the series table that the forest stands for, in document order.\<close>

definition series_entry :: "'r Environment \<Rightarrow> string \<Rightarrow> 'r node \<Rightarrow> 'r SeriesItem" where
  "series_entry env dirname e =
     \<lparr>SeriesItem_Record = RecordItem (rec_of e),
      SeriesItem_Files = map (image_name env dirname) (children e)\<rparr>"

definition study_series :: "'r Environment \<Rightarrow> string \<Rightarrow> 'r node list \<Rightarrow> 'r SeriesItem list" where
  "study_series env dirname studies =
     concat (map (\<lambda>s. map (series_entry env dirname) (children s)) studies)"

definition forest_series :: "'r Environment \<Rightarrow> string \<Rightarrow> 'r node list \<Rightarrow> 'r SeriesItem list" where
  "forest_series env dirname forest =
     concat (map (\<lambda>p. study_series env dirname (children p)) forest)"

text \<open>The calls made one after the other, going on after a rejected call as the decoder does.\<close>

fun apply_calls :: "'r AddCall list \<Rightarrow> 'r vtkDICOMDirectory \<Rightarrow> 'r vtkDICOMDirectory option" where
  "apply_calls [] d = Some d"
| "apply_calls (c # cs) d =
    (case do_call c d of
       Ok d1 \<Rightarrow> apply_calls cs d1
     | Rejected d1 \<Rightarrow> apply_calls cs d1
     | OutOfBounds \<Rightarrow> None)"

section \<open>Concrete inputs for the examples\<close>

text \<open>
  The object as the constructor leaves it. The constructor shown does not assign
  \<^verbatim>\<open>FindLevel\<close>, so the level is an argument.
\<close>

definition new_directory :: "FindLevelType \<Rightarrow> string vtkDICOMDirectory" where
  "new_directory level =
    \<lparr>Series = [], Studies = [], Patients = [], Visited = [], ErrorCode = 0,
     AbortExecute = False, FileSetID = None, RequirePixelData = True, FollowSymlinks = True,
     ScanDepth = 1, HasInputFileNames = False, HasQuery = False, FindLevel = level,
     FilePattern = None\<rparr>"

text \<open>
  Modelled from the spec: \<^verbatim>\<open>vtkDICOMUtilities::CompareUIDs\<close> is not among the sources,
  and the spec only says that UIDs are compared when both are present. This instance
  (an absent UID before a present one, two present ones by \<open>strcmp\<close>) is used for the
  concrete examples only; the theorems hold for every comparator.
\<close>

definition CompareUIDs_example :: "vtkDICOMValue \<Rightarrow> vtkDICOMValue \<Rightarrow> int" where
  "CompareUIDs_example u1 u2 =
    (case (u1, u2) of
       (None, None) \<Rightarrow> 0
     | (None, Some b) \<Rightarrow> - 1
     | (Some a, None) \<Rightarrow> 1
     | (Some a, Some b) \<Rightarrow> sgn (strcmp a b))"

definition example_call :: "int \<Rightarrow> int \<Rightarrow> string AddCall" where
  "example_call patient study =
    \<lparr>call_patient = patient, call_study = study, call_files = [''f''],
     call_patientRecord = ''p'', call_studyRecord = ''s'', call_seriesRecord = ''e''\<rparr>"


text \<open>The meta data of a file that the parser reads without error, with pixel data.\<close>

definition example_meta ::
  "string \<Rightarrow> string \<Rightarrow> vtkDICOMValue \<Rightarrow> vtkDICOMValue \<Rightarrow> vtkDICOMValue \<Rightarrow> vtkDICOMValue \<Rightarrow>
   32 word \<Rightarrow> 32 word \<Rightarrow> string MetaData" where
  "example_meta pid pname suid sdate stime seuid snum inst =
    \<lparr>IsDICOMFile = True, PixelDataFound = True, ParserErrorCode = 0, ParserErrorEvent = False,
     ParserQueryMatched = True, meta_InstanceNumber = inst,
     meta_PatientName = Some pname, meta_PatientID = Some pid,
     meta_StudyDate = sdate, meta_StudyTime = stime, meta_StudyInstanceUID = suid,
     meta_SeriesInstanceUID = seuid, meta_SeriesNumber = snum,
     meta_PatientRecord = pid, meta_StudyRecord = or_empty suid,
     meta_SeriesRecord = or_empty seuid\<rparr>"

definition example_file :: "32 word \<Rightarrow> FileInfo" where
  "example_file inst = \<lparr>InstanceNumber = inst, FileName = ''f''\<rparr>"

text \<open>
  Three files of one series with the instance numbers 3, 1 and 2, as in the scenario of
  the specification.
\<close>

definition example_parse :: "string \<Rightarrow> string MetaData" where
  "example_parse name =
    example_meta ''P1'' ''Doe'' (Some ''1.2'') (Some ''20200101'') (Some ''120000'')
      (Some ''1.2.3'') 1
      (if name = ''f3'' then 3 else if name = ''f1'' then 1 else 2)"

text \<open>
  A small file system without a DICOMDIR: the directory \<open>/d\<close> lists a file, a hidden
  file and the directories \<open>sub\<close> and \<open>abc\<close>, in this order; \<open>sub\<close> holds a file
  and the symbolic link \<open>loop\<close> back to \<open>/d\<close>; \<open>abc\<close> holds a file.
\<close>

definition example_join :: "string \<Rightarrow> string list \<Rightarrow> string" where
  "example_join dirname comps = dirname @ concat (map (\<lambda>c. ''/'' @ c) comps)"

definition example_env :: "string Environment" where
  "example_env =
    \<lparr>ParseFile = example_parse,
     ParseDirectoryFile = (\<lambda>name. \<lparr>dir_ErrorCode = 0, dir_ErrorEvent = False,
        dir_FileSetID = None, DirectoryRecordSequence = [],
        OffsetOfTheFirstDirectoryRecordOfTheRootDirectoryEntity = 0\<rparr>),
     CompareUIDs = CompareUIDs_example,
     PatternMatches = (\<lambda>pat name. True),
     AbortRequested = (\<lambda>name. False),
     GetRealPath = (\<lambda>name. if name = ''/d/sub/loop'' then ''/d'' else name),
     FileExists = (\<lambda>name. False),
     FileIsSymlink = (\<lambda>name. name = ''/d/sub/loop''),
     FileIsDirectory = (\<lambda>name. name = ''/d'' \<or> name = ''/d/sub'' \<or> name = ''/d/abc'' \<or>
        name = ''/d/sub/loop''),
     LoadDirectory = (\<lambda>name.
        if name = ''/d'' \<or> name = ''/d/sub/loop'' then Some [''a.dcm'', ''.hidden'', ''sub'', ''abc'']
        else if name = ''/d/sub'' then Some [''b.dcm'', ''loop'']
        else if name = ''/d/abc'' then Some [''c.dcm'']
        else None),
     JoinPath = example_join,
     CannotOpenFileError = 20002\<rparr>"



text \<open>
  A DICOMDIR with one patient, one study, two series and one image in each series. The
  record sequence \<open>example_items\<close> holds the records of the forest in a scrambled
  physical order.
\<close>

definition example_record ::
  "nat \<Rightarrow> nat \<Rightarrow> nat \<Rightarrow> string \<Rightarrow> string list option \<Rightarrow> string \<Rightarrow> string DirectoryRecord" where
  "example_record off nxt child ty fileID item =
    \<lparr>ByteOffset = off, OffsetOfTheNextDirectoryRecord = nxt,
     OffsetOfReferencedLowerLevelDirectoryEntity = child,
     DirectoryRecordType = ty, ReferencedFileID = fileID, RecordItem = item\<rparr>"

definition example_forest :: "string node list" where
  "example_forest =
    [Node (example_record 10 0 20 ''PATIENT'' None ''pat'')
      [Node (example_record 20 0 30 ''STUDY'' None ''stu'')
        [Node (example_record 30 40 50 ''SERIES'' None ''se1'')
           [Node (example_record 50 0 0 ''IMAGE'' (Some [''A'', ''I1'']) ''im1'') []],
         Node (example_record 40 0 60 ''SERIES'' None ''se2'')
           [Node (example_record 60 0 0 ''IMAGE'' (Some [''A'', ''I2'']) ''im2'') []]]]]"

definition example_items :: "string DirectoryRecord list" where
  "example_items =
    [example_record 60 0 0 ''IMAGE'' (Some [''A'', ''I2'']) ''im2'',
     example_record 30 40 50 ''SERIES'' None ''se1'',
     example_record 10 0 20 ''PATIENT'' None ''pat'',
     example_record 50 0 0 ''IMAGE'' (Some [''A'', ''I1'']) ''im1'',
     example_record 20 0 30 ''STUDY'' None ''stu'',
     example_record 40 0 60 ''SERIES'' None ''se2'']"

text \<open>Forests with a series without images, a study without series, a patient without studies.\<close>

definition example_empty_series :: "string node list" where
  "example_empty_series =
    [Node (example_record 10 0 20 ''PATIENT'' None ''pat'')
      [Node (example_record 20 0 30 ''STUDY'' None ''stu'')
        [Node (example_record 30 0 0 ''SERIES'' None ''se0'') []]]]"

definition example_empty_study :: "string node list" where
  "example_empty_study =
    [Node (example_record 10 0 20 ''PATIENT'' None ''pat'')
      [Node (example_record 20 0 0 ''STUDY'' None ''stu'') []]]"

definition example_empty_patient :: "string node list" where
  "example_empty_patient = [Node (example_record 10 0 0 ''PATIENT'' None ''pat'') []]"

definition example_directory_meta :: "string DirectoryRecord list \<Rightarrow> string DirectoryMetaData" where
  "example_directory_meta items =
    \<lparr>dir_ErrorCode = 0, dir_ErrorEvent = False, dir_FileSetID = Some ''SET'',
     DirectoryRecordSequence = items,
     OffsetOfTheFirstDirectoryRecordOfTheRootDirectoryEntity = 10\<rparr>"

section \<open>Properties of the index store\<close>

lemma study_rejected:
  "study \<noteq> int (length (Studies this)) \<Longrightarrow> study \<noteq> int (length (Studies this)) - 1 \<Longrightarrow>
   AddSeriesFileNames patient study files pr sr er this = Rejected this"
  by (simp add: AddSeriesFileNames_def Let_def)

lemma patient_rejected_new_study:
  "study = int (length (Studies this)) \<Longrightarrow>
   patient \<noteq> int (length (Patients this)) \<Longrightarrow> patient \<noteq> int (length (Patients this)) - 1 \<Longrightarrow>
   AddSeriesFileNames patient study files pr sr er this =
     Rejected (this\<lparr>Studies := Studies this @
               [\<lparr>StudyItem_Record = sr, StudyItem_PatientRecord = pr,
                 FirstSeries = int (length (Series this)), LastSeries = int (length (Series this))\<rparr>]\<rparr>)"
  by (simp add: AddSeriesFileNames_def Let_def)

lemma patient_rejected_cont_study:
  "study = int (length (Studies this)) - 1 \<Longrightarrow> 0 \<le> study \<Longrightarrow>
   patient \<noteq> int (length (Patients this)) \<Longrightarrow> patient \<noteq> int (length (Patients this)) - 1 \<Longrightarrow>
   AddSeriesFileNames patient study files pr sr er this =
     Rejected (this\<lparr>Studies := (Studies this)
                  [nat study := (Studies this ! nat study)\<lparr>LastSeries := int (length (Series this))\<rparr>]\<rparr>)"
  by (simp add: AddSeriesFileNames_def Let_def)

lemma below_zero:
  "Studies this = [] \<Longrightarrow> AddSeriesFileNames patient (-1) files pr sr er this = OutOfBounds"
  by (simp add: AddSeriesFileNames_def Let_def)

lemma contiguous_append:
  "contiguous k (ss @ [s]) e \<longleftrightarrow>
     (\<exists>j. contiguous k ss j \<and> FirstSeries s = j \<and> FirstSeries s \<le> LastSeries s \<and> LastSeries s + 1 = e)"
  by (induction ss arbitrary: k) auto

lemma contiguous_le: "contiguous k ss e \<Longrightarrow> k \<le> e"
  by (induction ss arbitrary: k) force+

lemma Ok_cases:
  assumes "AddSeriesFileNames patient study files pr sr er this = Ok s'"
  shows "Series s' = Series this @ [\<lparr>SeriesItem_Record = er, SeriesItem_Files = files\<rparr>] \<and>
     ((study = int (length (Studies this)) \<and>
       Studies s' = Studies this @ [\<lparr>StudyItem_Record = sr, StudyItem_PatientRecord = pr,
                 FirstSeries = int (length (Series this)), LastSeries = int (length (Series this))\<rparr>]) \<or>
      (study = int (length (Studies this)) - 1 \<and> 0 \<le> study \<and>
       Studies s' = (Studies this)
                  [nat study := (Studies this ! nat study)\<lparr>LastSeries := int (length (Series this))\<rparr>]))"
  using assms
  by (auto simp add: AddSeriesFileNames_def Let_def split: if_splits)

lemma Ok_preserves:
  assumes inv: "store_inv this"
    and ok: "AddSeriesFileNames patient study files pr sr er this = Ok s'"
  shows "store_inv s'"
proof -
  let ?e = "int (length (Series this))"
  from Ok_cases [OF ok] have ser: "int (length (Series s')) = ?e + 1" by simp
  from Ok_cases [OF ok] consider
    (new) "Studies s' = Studies this @ [\<lparr>StudyItem_Record = sr, StudyItem_PatientRecord = pr,
                 FirstSeries = ?e, LastSeries = ?e\<rparr>]"
  | (cont) "study = int (length (Studies this)) - 1" "0 \<le> study"
       "Studies s' = (Studies this)[nat study := (Studies this ! nat study)\<lparr>LastSeries := ?e\<rparr>]"
    by blast
  then show ?thesis
  proof cases
    case new
    with inv ser show ?thesis by (simp add: store_inv_def contiguous_append)
  next
    case cont
    then have ne: "Studies this \<noteq> []" by auto
    then obtain ss0 l where sp: "Studies this = ss0 @ [l]" by (metis rev_exhaust)
    with cont have idx: "nat study = length ss0" by simp
    from inv sp obtain j where j: "contiguous 0 ss0 j" "FirstSeries l = j"
        "FirstSeries l \<le> LastSeries l" "LastSeries l + 1 = ?e"
      by (auto simp add: store_inv_def contiguous_append)
    from cont(3) sp idx have "Studies s' = ss0 @ [l\<lparr>LastSeries := ?e\<rparr>]" by simp
    with j ser show ?thesis by (simp add: store_inv_def contiguous_append)
  qed
qed

lemma successful_calls_inv:
  "store_inv this \<Longrightarrow> successful_calls cs this = Some s' \<Longrightarrow> store_inv s'"
proof (induction cs arbitrary: this)
  case Nil
  then show ?case by simp
next
  case (Cons c cs)
  from Cons.prems(2) obtain s1 where s1: "do_call c this = Ok s1" "successful_calls cs s1 = Some s'"
    by (auto split: result.splits)
  from Ok_preserves [OF Cons.prems(1) s1(1) [unfolded do_call_def]] have "store_inv s1" .
  then show ?case using Cons.IH s1(2) by blast
qed

lemma cleared_inv: "store_inv (cleared this)"
  by (simp add: store_inv_def cleared_def)


text \<open>
  C2 at a failing input. The object has no study and no patient, and
  \<^verbatim>\<open>AddSeriesFileNames\<close> is called with the patient index 5, which is neither the
  patient count 0 nor one less, and with the study index \<open>-1\<close>. The guard
  \<^verbatim>\<open>n >= 0 && study == n-1\<close> holds for the study count \<open>n = 0\<close>, so the code assigns
  to \<^verbatim>\<open>LastSeries\<close> of the element \<open>-1\<close> of the empty study vector before it looks
  at the patient index: the call does not end as a rejected call.
\<close>

theorem AddSeriesFileNames_below_first_study:
  "Studies (new_directory IMAGE) = [] \<and> Patients (new_directory IMAGE) = [] \<and>
   (5::int) \<noteq> int (length (Patients (new_directory IMAGE))) \<and>
   (5::int) \<noteq> int (length (Patients (new_directory IMAGE))) - 1 \<and>
   (- 1::int) = int (length (Studies (new_directory IMAGE))) - 1 \<and>
   AddSeriesFileNames 5 (- 1) [''a''] ''p'' ''s'' ''e'' (new_directory IMAGE) = OutOfBounds"
  by (simp add: new_directory_def AddSeriesFileNames_def Let_def)

text \<open>
  On every other input the index checks do what they are meant to do. A call whose study
  argument is neither the study count \<open>n\<close> nor \<open>n - 1\<close> is rejected and leaves the whole
  object as it was, in particular for the study index \<open>n + 2\<close>. A call whose patient
  argument is neither the patient count \<open>m\<close> nor \<open>m - 1\<close> never runs to the end, and
  when it is rejected the series table is the one before the call. The access below the
  start of the vector happens only for the study index \<open>-1\<close> on an empty study table.
\<close>

lemma AddSeriesFileNames_rejects_bad_index:
  "(study \<noteq> int (length (Studies this)) \<and> study \<noteq> int (length (Studies this)) - 1 \<longrightarrow>
      AddSeriesFileNames patient study files pr sr er this = Rejected this) \<and>
   (patient \<noteq> int (length (Patients this)) \<and> patient \<noteq> int (length (Patients this)) - 1 \<longrightarrow>
      (case AddSeriesFileNames patient study files pr sr er this of
         Ok s \<Rightarrow> False
       | Rejected s \<Rightarrow> Series s = Series this
       | OutOfBounds \<Rightarrow> study = - 1 \<and> Studies this = [])) \<and>
   (study = int (length (Studies this)) + 2 \<longrightarrow>
      AddSeriesFileNames patient study files pr sr er this = Rejected this)"
proof (intro conjI impI)
  assume "study \<noteq> int (length (Studies this)) \<and> study \<noteq> int (length (Studies this)) - 1"
  then show "AddSeriesFileNames patient study files pr sr er this = Rejected this"
    by (simp add: study_rejected)
next
  assume "study = int (length (Studies this)) + 2"
  then show "AddSeriesFileNames patient study files pr sr er this = Rejected this"
    by (simp add: study_rejected)
next
  assume bad: "patient \<noteq> int (length (Patients this)) \<and> patient \<noteq> int (length (Patients this)) - 1"
  consider (new) "study = int (length (Studies this))"
    | (cont) "study = int (length (Studies this)) - 1" "0 \<le> study"
    | (below) "study = int (length (Studies this)) - 1" "study < 0"
    | (other) "study \<noteq> int (length (Studies this))" "study \<noteq> int (length (Studies this)) - 1"
    by linarith
  then show "case AddSeriesFileNames patient study files pr sr er this of
         Ok s \<Rightarrow> False
       | Rejected s \<Rightarrow> Series s = Series this
       | OutOfBounds \<Rightarrow> study = - 1 \<and> Studies this = []"
  proof cases
    case new
    with bad show ?thesis by (simp add: patient_rejected_new_study)
  next
    case cont
    with bad show ?thesis by (simp add: patient_rejected_cont_study)
  next
    case below
    then have "Studies this = []" "study = - 1" by auto
    then show ?thesis by (simp add: below_zero)
  next
    case other
    then show ?thesis by (simp add: study_rejected)
  qed
qed

lemma AddSeriesFileNames_rejects_bad_index_example:
  "AddSeriesFileNames 0 2 [''a''] ''p'' ''s'' ''e'' (new_directory IMAGE) =
     Rejected (new_directory IMAGE) \<and>
   (case AddSeriesFileNames 5 0 [''a''] ''p'' ''s'' ''e'' (new_directory IMAGE) of
      Ok s \<Rightarrow> False
    | Rejected s \<Rightarrow> Series s = []
    | OutOfBounds \<Rightarrow> False)"
  using AddSeriesFileNames_rejects_bad_index
          [of 2 "new_directory IMAGE" 0 "[''a'']" "''p''" "''s''" "''e''"]
        AddSeriesFileNames_rejects_bad_index
          [of 0 "new_directory IMAGE" 5 "[''a'']" "''p''" "''s''" "''e''"]
  by (simp add: new_directory_def split: result.splits)

text \<open>
  C3. From a store whose study ranges are contiguous, begin at series 0 and end at the
  last series, every sequence of successful calls of \<^verbatim>\<open>AddSeriesFileNames\<close> leads to
  such a store again. A successful call appends one series; with the study index equal to
  the study count it appends a study whose first and last series are the old series
  count, and with the study index one less it only sets the last series of the most
  recent study to the old series count.
\<close>

theorem successful_calls_keep_ranges:
  "(store_inv this \<and> successful_calls cs this = Some s' \<longrightarrow> store_inv s') \<and>
   (do_call c this = Ok s1 \<longrightarrow>
      length (Series s1) = length (Series this) + 1 \<and>
      (call_study c = int (length (Studies this)) \<longrightarrow>
         Studies s1 = Studies this @
           [\<lparr>StudyItem_Record = call_studyRecord c, StudyItem_PatientRecord = call_patientRecord c,
             FirstSeries = int (length (Series this)), LastSeries = int (length (Series this))\<rparr>]) \<and>
      (call_study c = int (length (Studies this)) - 1 \<longrightarrow>
         Studies s1 = butlast (Studies this) @
           [last (Studies this)\<lparr>LastSeries := int (length (Series this))\<rparr>]))"
proof (intro conjI impI)
  assume "store_inv this \<and> successful_calls cs this = Some s'"
  then show "store_inv s'" using successful_calls_inv by blast
next
  assume ok: "do_call c this = Ok s1"
  from Ok_cases [OF ok [unfolded do_call_def]]
  show "length (Series s1) = length (Series this) + 1" by simp
next
  assume ok: "do_call c this = Ok s1" and new: "call_study c = int (length (Studies this))"
  from Ok_cases [OF ok [unfolded do_call_def]] new
  show "Studies s1 = Studies this @
           [\<lparr>StudyItem_Record = call_studyRecord c, StudyItem_PatientRecord = call_patientRecord c,
             FirstSeries = int (length (Series this)), LastSeries = int (length (Series this))\<rparr>]"
    by auto
next
  assume ok: "do_call c this = Ok s1" and cont: "call_study c = int (length (Studies this)) - 1"
  from Ok_cases [OF ok [unfolded do_call_def]] cont
  have nonneg: "0 \<le> call_study c"
    and upd: "Studies s1 = (Studies this)
        [nat (call_study c) := (Studies this ! nat (call_study c))\<lparr>LastSeries := int (length (Series this))\<rparr>]"
    by auto
  from cont nonneg have ne: "Studies this \<noteq> []" by auto
  then obtain ss0 l where sp: "Studies this = ss0 @ [l]" by (metis rev_exhaust)
  with cont have "nat (call_study c) = length ss0" by simp
  with upd sp show "Studies s1 = butlast (Studies this) @
           [last (Studies this)\<lparr>LastSeries := int (length (Series this))\<rparr>]"
    by simp
qed


theorem successful_calls_keep_ranges_witness:
  "store_inv (new_directory IMAGE) \<and>
   successful_calls [example_call 0 0, example_call 0 0, example_call 0 1] (new_directory IMAGE)
     \<noteq> None \<and>
   store_inv (the (successful_calls [example_call 0 0, example_call 0 0, example_call 0 1]
     (new_directory IMAGE))) \<and>
   map (\<lambda>s. (FirstSeries s, LastSeries s))
     (Studies (the (successful_calls [example_call 0 0, example_call 0 0, example_call 0 1]
        (new_directory IMAGE)))) = [(0, 1), (2, 2)]"
  using successful_calls_keep_ranges
    [of "new_directory IMAGE" "[example_call 0 0, example_call 0 0, example_call 0 1]"
        "the (successful_calls [example_call 0 0, example_call 0 0, example_call 0 1]
           (new_directory IMAGE))"
        "example_call 0 0" "new_directory IMAGE"]
  by (simp add: store_inv_def new_directory_def example_call_def do_call_def
        AddSeriesFileNames_def Let_def)

text \<open>
  C10. A call of \<^verbatim>\<open>AddSeriesFileNames\<close> with a study index that is accepted (the study
  count, or one less when a study exists) and a patient index that is neither the patient
  count nor one less is rejected without a new series, but the change already made to
  the study table stays: the study appended for a new index, or the last series of the
  most recent study moved to the series count. In both cases the last study then ends at
  an index that is not in the series table.
\<close>

theorem rejected_patient_keeps_study_change:
  "patient \<noteq> int (length (Patients this)) \<and> patient \<noteq> int (length (Patients this)) - 1 \<longrightarrow>
    (study = int (length (Studies this)) \<longrightarrow>
       AddSeriesFileNames patient study files pr sr er this =
         Rejected (this\<lparr>Studies := Studies this @
           [\<lparr>StudyItem_Record = sr, StudyItem_PatientRecord = pr,
             FirstSeries = int (length (Series this)),
             LastSeries = int (length (Series this))\<rparr>]\<rparr>)) \<and>
    (study = int (length (Studies this)) - 1 \<and> Studies this \<noteq> [] \<longrightarrow>
       AddSeriesFileNames patient study files pr sr er this =
         Rejected (this\<lparr>Studies := butlast (Studies this) @
           [last (Studies this)\<lparr>LastSeries := int (length (Series this))\<rparr>]\<rparr>)) \<and>
    ((study = int (length (Studies this)) \<or>
      study = int (length (Studies this)) - 1 \<and> Studies this \<noteq> []) \<longrightarrow>
       (\<exists>s. AddSeriesFileNames patient study files pr sr er this = Rejected s \<and>
            Series s = Series this \<and> Patients s = Patients this \<and> Studies s \<noteq> [] \<and>
            LastSeries (last (Studies s)) = int (length (Series s))))"
proof (intro impI conjI)
  assume bad: "patient \<noteq> int (length (Patients this)) \<and> patient \<noteq> int (length (Patients this)) - 1"
  assume "study = int (length (Studies this))"
  with bad show "AddSeriesFileNames patient study files pr sr er this =
         Rejected (this\<lparr>Studies := Studies this @
           [\<lparr>StudyItem_Record = sr, StudyItem_PatientRecord = pr,
             FirstSeries = int (length (Series this)),
             LastSeries = int (length (Series this))\<rparr>]\<rparr>)"
    by (simp add: patient_rejected_new_study)
next
  assume bad: "patient \<noteq> int (length (Patients this)) \<and> patient \<noteq> int (length (Patients this)) - 1"
  assume cont: "study = int (length (Studies this)) - 1 \<and> Studies this \<noteq> []"
  then obtain ss0 l where sp: "Studies this = ss0 @ [l]" by (metis rev_exhaust)
  with cont have idx: "nat study = length ss0" "0 \<le> study" by simp_all
  from patient_rejected_cont_study [of study this patient files pr sr er] cont bad idx sp
  show "AddSeriesFileNames patient study files pr sr er this =
         Rejected (this\<lparr>Studies := butlast (Studies this) @
           [last (Studies this)\<lparr>LastSeries := int (length (Series this))\<rparr>]\<rparr>)"
    by simp
next
  assume bad: "patient \<noteq> int (length (Patients this)) \<and> patient \<noteq> int (length (Patients this)) - 1"
  assume "study = int (length (Studies this)) \<or>
      study = int (length (Studies this)) - 1 \<and> Studies this \<noteq> []"
  then show "\<exists>s. AddSeriesFileNames patient study files pr sr er this = Rejected s \<and>
            Series s = Series this \<and> Patients s = Patients this \<and> Studies s \<noteq> [] \<and>
            LastSeries (last (Studies s)) = int (length (Series s))"
  proof
    assume "study = int (length (Studies this))"
    with bad show ?thesis by (simp add: patient_rejected_new_study)
  next
    assume cont: "study = int (length (Studies this)) - 1 \<and> Studies this \<noteq> []"
    then obtain ss0 l where sp: "Studies this = ss0 @ [l]" by (metis rev_exhaust)
    with cont have idx: "nat study = length ss0" "0 \<le> study" by simp_all
    from patient_rejected_cont_study [of study this patient files pr sr er] cont bad idx sp
    show ?thesis by simp
  qed
qed

theorem rejected_patient_keeps_study_change_witness:
  "AddSeriesFileNames 5 0 [''a''] ''p'' ''s'' ''e'' (new_directory IMAGE) =
     Rejected ((new_directory IMAGE)\<lparr>Studies :=
       [\<lparr>StudyItem_Record = ''s'', StudyItem_PatientRecord = ''p'',
         FirstSeries = 0, LastSeries = 0\<rparr>]\<rparr>) \<and>
   Series (new_directory IMAGE) = []"
  using rejected_patient_keeps_study_change
    [of 5 "new_directory IMAGE" 0 "[''a'']" "''p''" "''s''" "''e''"]
  by (simp add: new_directory_def)


section \<open>Properties of the grouping comparator\<close>

lemma strcmp_same: "strcmp s s = 0"
  by (induction s) auto

lemma of_char_zero: "(of_char c :: nat) = 0 \<longleftrightarrow> c = CHR 0x00"
proof -
  have "(of_char c :: nat) = of_char (CHR 0x00) \<longleftrightarrow> c = CHR 0x00"
    by (rule of_char_eq_iff)
  then show ?thesis by simp
qed

lemma strcmp_zero_iff:
  "c_string a \<Longrightarrow> c_string b \<Longrightarrow> strcmp a b = 0 \<longleftrightarrow> a = b"
proof (induction a b rule: strcmp.induct)
  case 1
  then show ?case by simp
next
  case (2 y ys)
  then show ?case by (auto simp add: c_string_def of_char_zero)
next
  case (3 x xs)
  then show ?case by (auto simp add: c_string_def of_char_zero)
next
  case (4 x xs y ys)
  then show ?case by (auto simp add: c_string_def)
qed

lemma strcmp_antisym: "strcmp a b = - strcmp b a"
  by (induction a b rule: strcmp.induct) auto

lemma compare_patient_same_id:
  "meta_PatientID meta = Some pid \<Longrightarrow> PatientID li = Some pid \<Longrightarrow> pid \<noteq> [] \<Longrightarrow>
     compare_patient meta li = 0"
  by (simp add: compare_patient_def or_empty_def strcmp_same Let_def)

lemma compare_patient_other_id:
  assumes "or_empty (meta_PatientID meta) \<noteq> or_empty (PatientID li) \<or> or_empty (meta_PatientID meta) = []"
    and "c_string (or_empty (meta_PatientID meta))" "c_string (or_empty (PatientID li))"
  shows "compare_patient meta li =
     (if strcmp (or_empty (PatientName li)) (or_empty (meta_PatientName meta)) = 0
      then strcmp (or_empty (PatientID li)) (or_empty (meta_PatientID meta))
      else strcmp (or_empty (PatientName li)) (or_empty (meta_PatientName meta)))"
  using assms strcmp_zero_iff [of "or_empty (PatientID li)" "or_empty (meta_PatientID meta)"]
  by (auto simp add: compare_patient_def Let_def)

lemma compare_group_zero_iff:
  "compare_group cmp meta li = 0 \<longleftrightarrow>
     compare_patient meta li = 0 \<and> compare_study cmp meta li = 0 \<and> compare_series cmp meta li = 0"
  by (simp add: compare_group_def Let_def)

lemma compare_group_patient:
  "compare_patient meta li \<noteq> 0 \<Longrightarrow> compare_group cmp meta li = compare_patient meta li"
  by (simp add: compare_group_def Let_def)

lemma insert_file_forms:
  "(\<exists>i<length sf. compare_group cmp meta (sf ! i) = 0 \<and> meta_SeriesInstanceUID meta \<noteq> None \<and>
        insert_file cmp meta fi q sf = sf[i := join_group fi q (sf ! i)]) \<or>
   (\<exists>i\<le>length sf. insert_file cmp meta fi q sf = take i sf @ new_group meta fi q # drop i sf \<and>
        (\<forall>k<i. compare_group cmp meta (sf ! k) < 0) \<and>
        (i < length sf \<longrightarrow> compare_group cmp meta (sf ! i) \<ge> 0))"
proof (induction sf)
  case Nil
  then show ?case by simp
next
  case (Cons li rest)
  let ?c = "compare_group cmp meta li"
  consider (join) "?c = 0" "meta_SeriesInstanceUID meta \<noteq> None"
    | (before) "\<not> (?c = 0 \<and> meta_SeriesInstanceUID meta \<noteq> None)" "?c \<ge> 0"
    | (later) "?c < 0" by linarith
  then show ?case
  proof cases
    case join
    then have "0 < length (li # rest) \<and> compare_group cmp meta ((li # rest) ! 0) = 0 \<and>
        meta_SeriesInstanceUID meta \<noteq> None \<and>
        insert_file cmp meta fi q (li # rest) = (li # rest)[0 := join_group fi q ((li # rest) ! 0)]"
      by simp
    then show ?thesis by blast
  next
    case before
    then have "0 \<le> length (li # rest) \<and>
       insert_file cmp meta fi q (li # rest) =
          take 0 (li # rest) @ new_group meta fi q # drop 0 (li # rest) \<and>
        (\<forall>k<0. compare_group cmp meta ((li # rest) ! k) < 0) \<and>
        (0 < length (li # rest) \<longrightarrow> compare_group cmp meta ((li # rest) ! 0) \<ge> 0)"
      by auto
    then show ?thesis by blast
  next
    case later
    then have step: "insert_file cmp meta fi q (li # rest) = li # insert_file cmp meta fi q rest"
      by simp
    from Cons.IH show ?thesis
    proof
      assume "\<exists>i<length rest. compare_group cmp meta (rest ! i) = 0 \<and>
         meta_SeriesInstanceUID meta \<noteq> None \<and>
         insert_file cmp meta fi q rest = rest[i := join_group fi q (rest ! i)]"
      then obtain i where i: "i < length rest" "compare_group cmp meta (rest ! i) = 0"
         "meta_SeriesInstanceUID meta \<noteq> None"
         "insert_file cmp meta fi q rest = rest[i := join_group fi q (rest ! i)]" by blast
      with step have "Suc i < length (li # rest) \<and> compare_group cmp meta ((li # rest) ! Suc i) = 0 \<and>
        meta_SeriesInstanceUID meta \<noteq> None \<and>
        insert_file cmp meta fi q (li # rest) = (li # rest)[Suc i := join_group fi q ((li # rest) ! Suc i)]"
        by simp
      then show ?thesis by blast
    next
      assume "\<exists>i\<le>length rest.
       insert_file cmp meta fi q rest = take i rest @ new_group meta fi q # drop i rest \<and>
       (\<forall>k<i. compare_group cmp meta (rest ! k) < 0) \<and>
       (i < length rest \<longrightarrow> 0 \<le> compare_group cmp meta (rest ! i))"
      then obtain i where i: "i \<le> length rest"
        "insert_file cmp meta fi q rest = take i rest @ new_group meta fi q # drop i rest"
        "\<forall>k<i. compare_group cmp meta (rest ! k) < 0"
        "i < length rest \<longrightarrow> 0 \<le> compare_group cmp meta (rest ! i)" by blast
      have "\<forall>k<Suc i. compare_group cmp meta ((li # rest) ! k) < 0"
      proof (intro allI impI)
        fix k assume "k < Suc i"
        with later i(3) show "compare_group cmp meta ((li # rest) ! k) < 0"
          by (cases k) auto
      qed
      with step i have "Suc i \<le> length (li # rest) \<and>
        insert_file cmp meta fi q (li # rest) =
          take (Suc i) (li # rest) @ new_group meta fi q # drop (Suc i) (li # rest) \<and>
        (\<forall>k<Suc i. compare_group cmp meta ((li # rest) ! k) < 0) \<and>
        (Suc i < length (li # rest) \<longrightarrow> compare_group cmp meta ((li # rest) ! Suc i) \<ge> 0)"
        by simp
      then show ?thesis by blast
    qed
  qed
qed

lemma insert_file_no_uid:
  "meta_SeriesInstanceUID meta = None \<Longrightarrow>
   \<exists>i\<le>length sf. insert_file cmp meta fi q sf = take i sf @ new_group meta fi q # drop i sf"
  using insert_file_forms [of sf cmp meta fi q] by auto


text \<open>
  A group that the code has built never holds a study time: \<^verbatim>\<open>StudyTime\<close> is not
  assigned when the group is created, so the comparison of the dates is all that
  \<open>compare_study_date\<close> does against it.
\<close>

lemma study_time_never_compared:
  "compare_study_date meta (new_group m fi q) =
     (case (meta_StudyDate meta, meta_StudyDate m) of
        (Some studyDate, Some studyDate2) \<Rightarrow> strcmp studyDate2 studyDate
      | _ \<Rightarrow> 0)"
  by (simp add: compare_study_date_def new_group_def Let_def split: option.splits)

text \<open>
  C7, as stated, fails. The files A (patient ID \<open>A\<close>, name \<open>Z\<close>) and B (ID \<open>B\<close>,
  name \<open>Y\<close>) have distinct non-empty IDs with \<open>A\<close> before \<open>B\<close>, yet B is placed
  before A in the list, by the names; with the names exchanged the same two IDs come out
  in the other order.
\<close>

theorem patient_order_by_id_counterexample:
  "strcmp ''A'' ''B'' < 0 \<and>
   compare_patient
     (example_meta ''B'' ''Y'' (Some ''1.2'') None None (Some ''1.2.3'') 1 1)
     (new_group (example_meta ''A'' ''Z'' (Some ''1.2'') None None (Some ''1.2.3'') 1 1)
        (example_file 1) True) > 0 \<and>
   map PatientID
     (insert_file CompareUIDs_example
        (example_meta ''B'' ''Y'' (Some ''1.2'') None None (Some ''1.2.3'') 1 1)
        (example_file 1) True
        [new_group (example_meta ''A'' ''Z'' (Some ''1.2'') None None (Some ''1.2.3'') 1 1)
           (example_file 1) True]) = [Some ''B'', Some ''A''] \<and>
   map PatientID
     (insert_file CompareUIDs_example
        (example_meta ''B'' ''Z'' (Some ''1.2'') None None (Some ''1.2.3'') 1 1)
        (example_file 1) True
        [new_group (example_meta ''A'' ''Y'' (Some ''1.2'') None None (Some ''1.2.3'') 1 1)
           (example_file 1) True]) = [Some ''A'', Some ''B'']"
  by (simp add: example_meta_def new_group_def compare_group_def compare_patient_def
        or_empty_def Let_def)

text \<open>
  C7, amended. The patient ID identifies the patient and the name sorts: two non-empty
  IDs that are equal compare equal whatever the names are; for two distinct non-empty
  IDs the result of the patient level is the comparison of the names when the names
  differ and the comparison of the IDs only when the names are equal; it is never zero,
  and when the list holds only the group of the one file, the group of the other file is
  inserted before it if the result is positive and after it otherwise.
\<close>

theorem patient_order_by_name_then_id:
  assumes "meta_PatientID meta = Some pid" and "PatientID li = Some pid2"
    and "pid \<noteq> []" and "pid2 \<noteq> []" and "c_string pid" and "c_string pid2"
  shows "(pid2 = pid \<longrightarrow> compare_patient meta li = 0) \<and>
     (pid2 \<noteq> pid \<longrightarrow>
        compare_patient meta li =
          (if strcmp (or_empty (PatientName li)) (or_empty (meta_PatientName meta)) = 0
           then strcmp pid2 pid
           else strcmp (or_empty (PatientName li)) (or_empty (meta_PatientName meta))) \<and>
        compare_patient meta li \<noteq> 0 \<and>
        insert_file cmp meta fi q [li] =
          (if compare_patient meta li > 0 then [new_group meta fi q, li]
           else [li, new_group meta fi q]))"
proof (intro conjI impI)
  assume "pid2 = pid"
  with assms show "compare_patient meta li = 0" by (simp add: compare_patient_same_id)
next
  assume ne: "pid2 \<noteq> pid"
  with assms have form: "compare_patient meta li =
     (if strcmp (or_empty (PatientName li)) (or_empty (meta_PatientName meta)) = 0
      then strcmp (or_empty (PatientID li)) (or_empty (meta_PatientID meta))
      else strcmp (or_empty (PatientName li)) (or_empty (meta_PatientName meta)))"
    by (intro compare_patient_other_id) (auto simp add: or_empty_def)
  with assms show eq: "compare_patient meta li =
          (if strcmp (or_empty (PatientName li)) (or_empty (meta_PatientName meta)) = 0
           then strcmp pid2 pid
           else strcmp (or_empty (PatientName li)) (or_empty (meta_PatientName meta)))"
    by (simp add: or_empty_def)
  from ne assms have "strcmp pid2 pid \<noteq> 0" by (simp add: strcmp_zero_iff)
  with eq show nz: "compare_patient meta li \<noteq> 0" by (simp split: if_splits)
  then show "insert_file cmp meta fi q [li] =
          (if compare_patient meta li > 0 then [new_group meta fi q, li]
           else [li, new_group meta fi q])"
    by (auto simp add: compare_group_patient Let_def)
qed

theorem patient_order_by_name_then_id_witness:
  "compare_patient
     (example_meta ''B'' ''Y'' (Some ''1.2'') None None (Some ''1.2.3'') 1 1)
     (new_group (example_meta ''A'' ''Z'' (Some ''1.2'') None None (Some ''1.2.3'') 1 1)
        (example_file 1) True) = strcmp ''Z'' ''Y'' \<and>
   insert_file CompareUIDs_example
     (example_meta ''B'' ''Y'' (Some ''1.2'') None None (Some ''1.2.3'') 1 1)
     (example_file 1) True
     [new_group (example_meta ''A'' ''Z'' (Some ''1.2'') None None (Some ''1.2.3'') 1 1)
        (example_file 1) True] =
     [new_group (example_meta ''B'' ''Y'' (Some ''1.2'') None None (Some ''1.2.3'') 1 1)
        (example_file 1) True,
      new_group (example_meta ''A'' ''Z'' (Some ''1.2'') None None (Some ''1.2.3'') 1 1)
        (example_file 1) True]"
  using patient_order_by_name_then_id
    [of "example_meta ''B'' ''Y'' (Some ''1.2'') None None (Some ''1.2.3'') 1 1" "''B''"
        "new_group (example_meta ''A'' ''Z'' (Some ''1.2'') None None (Some ''1.2.3'') 1 1)
           (example_file 1) True"
        "''A''" CompareUIDs_example "example_file 1" True]
  by (simp add: example_meta_def new_group_def or_empty_def c_string_def)

text \<open>
  C8, as stated, fails. Two files of one patient carry the same study UID, a study date
  and a study time; their dates differ, and still the study level ties (the second file
  joins the study of the first), so the result is not the comparison of date and time.
\<close>

theorem study_order_by_date_time_counterexample:
  "meta_StudyInstanceUID
     (example_meta ''P'' ''N'' (Some ''1.2'') (Some ''20200101'') (Some ''090000'')
        (Some ''1.2.3'') 1 1) =
   StudyUID (new_group
     (example_meta ''P'' ''N'' (Some ''1.2'') (Some ''20200102'') (Some ''100000'')
        (Some ''1.2.3'') 1 1) (example_file 1) True) \<and>
   strcmp ''20200102'' ''20200101'' \<noteq> 0 \<and>
   compare_patient
     (example_meta ''P'' ''N'' (Some ''1.2'') (Some ''20200101'') (Some ''090000'')
        (Some ''1.2.3'') 1 1)
     (new_group
        (example_meta ''P'' ''N'' (Some ''1.2'') (Some ''20200102'') (Some ''100000'')
           (Some ''1.2.3'') 1 1) (example_file 1) True) = 0 \<and>
   compare_study CompareUIDs_example
     (example_meta ''P'' ''N'' (Some ''1.2'') (Some ''20200101'') (Some ''090000'')
        (Some ''1.2.3'') 1 1)
     (new_group
        (example_meta ''P'' ''N'' (Some ''1.2'') (Some ''20200102'') (Some ''100000'')
           (Some ''1.2.3'') 1 1) (example_file 1) True) = 0"
  by (simp add: example_meta_def new_group_def compare_patient_def compare_study_def
        CompareUIDs_example_def or_empty_def Let_def)

text \<open>
  C8, amended. The study UID identifies the study and the date sorts: when the incoming
  file has a study UID and the UID comparison gives zero, the study level ties whatever
  the dates and times are; when the UID comparison is not zero or the incoming file has
  no study UID, and both sides carry a study date and the dates differ, the result of the
  study level is the comparison of the group's date with the file's date.
\<close>

theorem study_order_by_uid_then_date:
  "(cmp (meta_StudyInstanceUID meta) (StudyUID li) = 0 \<and> meta_StudyInstanceUID meta \<noteq> None \<longrightarrow>
      compare_study cmp meta li = 0) \<and>
   ((cmp (meta_StudyInstanceUID meta) (StudyUID li) \<noteq> 0 \<or> meta_StudyInstanceUID meta = None) \<and>
    meta_StudyDate meta = Some studyDate \<and> StudyDate li = Some studyDate2 \<and>
    strcmp studyDate2 studyDate \<noteq> 0 \<longrightarrow>
      compare_study cmp meta li = strcmp studyDate2 studyDate)"
  by (auto simp add: compare_study_def compare_study_date_def Let_def)

theorem study_order_by_uid_then_date_witness:
  "compare_study CompareUIDs_example
     (example_meta ''P'' ''N'' (Some ''1.2'') (Some ''20200101'') (Some ''090000'')
        (Some ''1.2.3'') 1 1)
     (new_group
        (example_meta ''P'' ''N'' (Some ''1.2'') (Some ''20200102'') (Some ''100000'')
           (Some ''1.2.3'') 1 1) (example_file 1) True) = 0 \<and>
   compare_study CompareUIDs_example
     (example_meta ''P'' ''N'' None (Some ''20200101'') (Some ''090000'') (Some ''1.2.3'') 1 1)
     (new_group
        (example_meta ''P'' ''N'' None (Some ''20200102'') (Some ''100000'') (Some ''1.2.3'') 1 1)
        (example_file 1) True) = strcmp ''20200102'' ''20200101''"
  using study_order_by_uid_then_date
    [of CompareUIDs_example
        "example_meta ''P'' ''N'' (Some ''1.2'') (Some ''20200101'') (Some ''090000'')
           (Some ''1.2.3'') 1 1"
        "new_group
           (example_meta ''P'' ''N'' (Some ''1.2'') (Some ''20200102'') (Some ''100000'')
              (Some ''1.2.3'') 1 1) (example_file 1) True"
        "''20200101''" "''20200102''"]
    study_order_by_uid_then_date
    [of CompareUIDs_example
        "example_meta ''P'' ''N'' None (Some ''20200101'') (Some ''090000'') (Some ''1.2.3'') 1 1"
        "new_group
           (example_meta ''P'' ''N'' None (Some ''20200102'') (Some ''100000'') (Some ''1.2.3'') 1 1)
           (example_file 1) True"
        "''20200101''" "''20200102''"]
  by (simp add: example_meta_def new_group_def CompareUIDs_example_def)

text \<open>
  C9. Whatever the list holds, a file either joins one existing group, and then the
  patient, study and series levels all compare equal with that group and the file has a
  series UID, or a new group holding just this file is inserted; a file without a series
  UID always gets a new group.
\<close>

theorem join_only_on_tie_with_series_uid:
  "((\<exists>i<length sf.
        compare_patient meta (sf ! i) = 0 \<and> compare_study cmp meta (sf ! i) = 0 \<and>
        compare_series cmp meta (sf ! i) = 0 \<and> meta_SeriesInstanceUID meta \<noteq> None \<and>
        insert_file cmp meta fi q sf = sf[i := join_group fi q (sf ! i)]) \<or>
    (\<exists>i\<le>length sf. insert_file cmp meta fi q sf = take i sf @ new_group meta fi q # drop i sf)) \<and>
   (meta_SeriesInstanceUID meta = None \<longrightarrow>
      (\<exists>i\<le>length sf. insert_file cmp meta fi q sf = take i sf @ new_group meta fi q # drop i sf))"
  using insert_file_forms [of sf cmp meta fi q] insert_file_no_uid [of meta sf cmp fi q]
  by (simp add: compare_group_zero_iff) blast

theorem join_only_on_tie_with_series_uid_witness:
  "compare_group CompareUIDs_example
     (example_meta ''P'' ''N'' (Some ''1.2'') None None None 7 2)
     (new_group (example_meta ''P'' ''N'' (Some ''1.2'') None None None 7 1)
        (example_file 1) True) = 0 \<and>
   insert_file CompareUIDs_example
     (example_meta ''P'' ''N'' (Some ''1.2'') None None None 7 2) (example_file 2) True
     [new_group (example_meta ''P'' ''N'' (Some ''1.2'') None None None 7 1)
        (example_file 1) True] =
     [new_group (example_meta ''P'' ''N'' (Some ''1.2'') None None None 7 2)
        (example_file 2) True,
      new_group (example_meta ''P'' ''N'' (Some ''1.2'') None None None 7 1)
        (example_file 1) True]"
  using join_only_on_tie_with_series_uid
    [of "[new_group (example_meta ''P'' ''N'' (Some ''1.2'') None None None 7 1)
            (example_file 1) True]"
        "example_meta ''P'' ''N'' (Some ''1.2'') None None None 7 2"
        CompareUIDs_example "example_file 2" True]
  by (simp add: example_meta_def new_group_def compare_group_def compare_patient_def
        compare_study_def compare_series_def CompareUIDs_example_def or_empty_def Let_def)

section \<open>Properties of SortFiles\<close>

lemma stable_insert_insort:
  "stable_insert CompareInstance x ys = insort_key InstanceNumber x ys"
  by (induction ys) (auto simp add: CompareInstance_def)

lemma stable_sort_sort_key:
  "stable_sort CompareInstance xs = sort_key InstanceNumber xs"
proof -
  have "stable_insert CompareInstance = insort_key InstanceNumber"
    by (intro ext) (rule stable_insert_insort)
  then show ?thesis by (simp add: stable_sort_def sort_key_def)
qed

lemma compare_group_same_series:
  assumes "meta_PatientID meta = Some pid" "meta_StudyInstanceUID meta = Some su"
      "meta_SeriesInstanceUID meta = Some se"
    and "PatientID li = Some pid" "StudyUID li = Some su" "SeriesUID li = Some se"
    and "pid \<noteq> []" "cmp (Some su) (Some su) = 0" "cmp (Some se) (Some se) = 0"
  shows "compare_group cmp meta li = 0"
  using assms
  by (simp add: compare_group_def compare_patient_same_id compare_study_def compare_series_def Let_def)

lemma group_files_same_series:
  assumes cmp: "CompareUIDs env (Some su) (Some su) = 0" "CompareUIDs env (Some se) (Some se) = 0"
    and pid: "pid \<noteq> []"
  shows "\<lbrakk>\<forall>f\<in>set input. IsDICOMFile (ParseFile env f) \<and> PixelDataFound (ParseFile env f) \<and>
             \<not> AbortRequested env f \<and> (HasQuery this \<longrightarrow> ParserQueryMatched (ParseFile env f)) \<and>
             meta_PatientID (ParseFile env f) = Some pid \<and>
             meta_StudyInstanceUID (ParseFile env f) = Some su \<and>
             meta_SeriesInstanceUID (ParseFile env f) = Some se;
          \<not> AbortExecute this;
          PatientID g = Some pid; StudyUID g = Some su; SeriesUID g = Some se; QueryMatched g\<rbrakk>
     \<Longrightarrow> \<exists>e. group_files env input this [g] =
            (this\<lparr>ErrorCode := e\<rparr>, Some [g\<lparr>Files := Files g @ map (file_info env) input\<rparr>])"
proof (induction input arbitrary: this g)
  case Nil
  have "this = this\<lparr>ErrorCode := ErrorCode this\<rparr>" by simp
  moreover have "g = g\<lparr>Files := Files g\<rparr>" by simp
  ultimately have "group_files env [] this [g] =
      (this\<lparr>ErrorCode := ErrorCode this\<rparr>, Some [g\<lparr>Files := Files g @ map (file_info env) []\<rparr>])"
    by simp
  then show ?case by blast
next
  case (Cons f rest)
  let ?meta = "ParseFile env f"
  let ?this1 = "RelayError (ParserErrorEvent ?meta) (ParserErrorCode ?meta) this"
  let ?g1 = "join_group (file_info env f) True g"
  from Cons.prems(1) have f: "IsDICOMFile ?meta" "PixelDataFound ?meta" "\<not> AbortRequested env f"
    "HasQuery this \<longrightarrow> ParserQueryMatched ?meta"
    "meta_PatientID ?meta = Some pid" "meta_StudyInstanceUID ?meta = Some su"
    "meta_SeriesInstanceUID ?meta = Some se" by simp_all
  obtain e1 where e1: "?this1 = this\<lparr>ErrorCode := e1\<rparr>"
    by (cases "ParserErrorEvent ?meta") (auto simp add: RelayError_def intro: that [of "ErrorCode this"])
  have ca: "check_abort env f (this\<lparr>ErrorCode := e1\<rparr>) = this\<lparr>ErrorCode := e1\<rparr>"
    using Cons.prems(2) f(3) by (simp add: check_abort_def)
  have cg: "compare_group (CompareUIDs env) ?meta g = 0"
    by (rule compare_group_same_series [of ?meta pid su se g "CompareUIDs env"])
       (use f Cons.prems pid cmp in simp_all)
  have ins: "insert_file (CompareUIDs env) ?meta (file_info env f) True [g] = [?g1]"
    using cg f(7) by simp
  have step: "group_files env (f # rest) this [g] = group_files env rest (this\<lparr>ErrorCode := e1\<rparr>) [?g1]"
    using f(1,2,4) e1 ca Cons.prems(2) ins by (simp add: Let_def)
  have "\<exists>e. group_files env rest (this\<lparr>ErrorCode := e1\<rparr>) [?g1] =
            ((this\<lparr>ErrorCode := e1\<rparr>)\<lparr>ErrorCode := e\<rparr>,
              Some [?g1\<lparr>Files := Files ?g1 @ map (file_info env) rest\<rparr>])"
  proof (rule Cons.IH)
    show "\<forall>f\<in>set rest. IsDICOMFile (ParseFile env f) \<and> PixelDataFound (ParseFile env f) \<and>
             \<not> AbortRequested env f \<and>
             (HasQuery (this\<lparr>ErrorCode := e1\<rparr>) \<longrightarrow> ParserQueryMatched (ParseFile env f)) \<and>
             meta_PatientID (ParseFile env f) = Some pid \<and>
             meta_StudyInstanceUID (ParseFile env f) = Some su \<and>
             meta_SeriesInstanceUID (ParseFile env f) = Some se"
      using Cons.prems(1) by simp
    show "\<not> AbortExecute (this\<lparr>ErrorCode := e1\<rparr>)" using Cons.prems(2) by simp
    show "PatientID ?g1 = Some pid" "StudyUID ?g1 = Some su" "SeriesUID ?g1 = Some se"
         "QueryMatched ?g1"
      using Cons.prems(3-6) by (simp_all add: join_group_def)
  qed
  then obtain e where e: "group_files env rest (this\<lparr>ErrorCode := e1\<rparr>) [?g1] =
            ((this\<lparr>ErrorCode := e1\<rparr>)\<lparr>ErrorCode := e\<rparr>,
              Some [?g1\<lparr>Files := Files ?g1 @ map (file_info env) rest\<rparr>])" by blast
  have "?g1\<lparr>Files := Files ?g1 @ map (file_info env) rest\<rparr> =
        g\<lparr>Files := Files g @ map (file_info env) (f # rest)\<rparr>"
    using Cons.prems(6) by (simp add: join_group_def)
  with step e have "group_files env (f # rest) this [g] =
      (this\<lparr>ErrorCode := e\<rparr>, Some [g\<lparr>Files := Files g @ map (file_info env) (f # rest)\<rparr>])"
    by simp
  then show ?case by blast
qed


lemma AddSeriesFileNames_new:
  "AddSeriesFileNames (int (length (Patients this))) (int (length (Studies this))) files pr sr er this =
     Ok (this\<lparr>Studies := Studies this @
               [\<lparr>StudyItem_Record = sr, StudyItem_PatientRecord = pr,
                 FirstSeries = int (length (Series this)), LastSeries = int (length (Series this))\<rparr>],
             Patients := Patients this @
               [\<lparr>PatientItem_Record = pr,
                 PatientItem_Studies = [int (length (Studies this))]\<rparr>],
             Series := Series this @ [\<lparr>SeriesItem_Record = er, SeriesItem_Files = files\<rparr>]\<rparr>)"
  by (simp add: AddSeriesFileNames_def Let_def)

lemma add_groups_single:
  "QueryMatched g \<Longrightarrow>
   \<exists>s. add_groups [g] (int (length (Patients t))) (int (length (Studies t))) None None t = Some s \<and>
       Series s = Series t @
         [\<lparr>SeriesItem_Record = SeriesRecord g,
           SeriesItem_Files = map FileName (stable_sort CompareInstance (Files g))\<rparr>]"
  by (simp add: IsValid_def AddSeriesFileNames_new Let_def)

lemma SortFiles_same_series:
  assumes ne: "input \<noteq> []" and na: "\<not> AbortExecute this" and pid: "pid \<noteq> []"
    and cmp: "CompareUIDs env (Some su) (Some su) = 0" "CompareUIDs env (Some se) (Some se) = 0"
    and all: "\<forall>f\<in>set input. IsDICOMFile (ParseFile env f) \<and> PixelDataFound (ParseFile env f) \<and>
             \<not> AbortRequested env f \<and> (HasQuery this \<longrightarrow> ParserQueryMatched (ParseFile env f)) \<and>
             meta_PatientID (ParseFile env f) = Some pid \<and>
             meta_StudyInstanceUID (ParseFile env f) = Some su \<and>
             meta_SeriesInstanceUID (ParseFile env f) = Some se"
  shows "\<exists>s. SortFiles env input this = Some s \<and>
     Series s = Series this @
       [\<lparr>SeriesItem_Record = meta_SeriesRecord (ParseFile env (hd input)),
         SeriesItem_Files = map FileName (stable_sort CompareInstance (map (file_info env) input))\<rparr>]"
proof -
  from ne obtain f rest where input: "input = f # rest" by (cases input) auto
  let ?meta = "ParseFile env f"
  let ?this1 = "RelayError (ParserErrorEvent ?meta) (ParserErrorCode ?meta) this"
  let ?g = "new_group ?meta (file_info env f) True"
  from all input have f: "IsDICOMFile ?meta" "PixelDataFound ?meta" "\<not> AbortRequested env f"
    "HasQuery this \<longrightarrow> ParserQueryMatched ?meta"
    "meta_PatientID ?meta = Some pid" "meta_StudyInstanceUID ?meta = Some su"
    "meta_SeriesInstanceUID ?meta = Some se" by simp_all
  obtain e1 where e1: "?this1 = this\<lparr>ErrorCode := e1\<rparr>"
    by (cases "ParserErrorEvent ?meta") (auto simp add: RelayError_def intro: that [of "ErrorCode this"])
  have ca: "check_abort env f (this\<lparr>ErrorCode := e1\<rparr>) = this\<lparr>ErrorCode := e1\<rparr>"
    using na f(3) by (simp add: check_abort_def)
  have step: "group_files env input this [] = group_files env rest (this\<lparr>ErrorCode := e1\<rparr>) [?g]"
    using f(1,2,4) e1 ca na input by (simp add: Let_def)
  have "\<exists>e. group_files env rest (this\<lparr>ErrorCode := e1\<rparr>) [?g] =
            ((this\<lparr>ErrorCode := e1\<rparr>)\<lparr>ErrorCode := e\<rparr>,
              Some [?g\<lparr>Files := Files ?g @ map (file_info env) rest\<rparr>])"
  proof (rule group_files_same_series [OF cmp pid])
    show "\<forall>f\<in>set rest. IsDICOMFile (ParseFile env f) \<and> PixelDataFound (ParseFile env f) \<and>
             \<not> AbortRequested env f \<and>
             (HasQuery (this\<lparr>ErrorCode := e1\<rparr>) \<longrightarrow> ParserQueryMatched (ParseFile env f)) \<and>
             meta_PatientID (ParseFile env f) = Some pid \<and>
             meta_StudyInstanceUID (ParseFile env f) = Some su \<and>
             meta_SeriesInstanceUID (ParseFile env f) = Some se"
      using all input by simp
    show "\<not> AbortExecute (this\<lparr>ErrorCode := e1\<rparr>)" using na by simp
    show "PatientID ?g = Some pid" "StudyUID ?g = Some su" "SeriesUID ?g = Some se"
         "QueryMatched ?g"
      using f by (simp_all add: new_group_def)
  qed
  then obtain e where e: "group_files env rest (this\<lparr>ErrorCode := e1\<rparr>) [?g] =
            (this\<lparr>ErrorCode := e\<rparr>, Some [?g\<lparr>Files := Files ?g @ map (file_info env) rest\<rparr>])"
    by auto
  let ?g' = "?g\<lparr>Files := Files ?g @ map (file_info env) rest\<rparr>"
  let ?this' = "this\<lparr>ErrorCode := e\<rparr>"
  have g': "Files ?g' = map (file_info env) input" "QueryMatched ?g'"
      "SeriesRecord ?g' = meta_SeriesRecord (ParseFile env (hd input))"
    using input by (simp_all add: new_group_def)
  have sort: "SortFiles env input this =
      add_groups [?g'] (int (length (Patients ?this'))) (int (length (Studies ?this'))) None None ?this'"
    using step e by (simp add: SortFiles_def)
  have "\<exists>s. add_groups [?g'] (int (length (Patients ?this'))) (int (length (Studies ?this')))
           None None ?this' = Some s \<and>
        Series s = Series ?this' @
       [\<lparr>SeriesItem_Record = SeriesRecord ?g',
         SeriesItem_Files = map FileName (stable_sort CompareInstance (Files ?g'))\<rparr>]"
    using g'(2) by (rule add_groups_single)
  then obtain s where s:
    "add_groups [?g'] (int (length (Patients ?this'))) (int (length (Studies ?this')))
           None None ?this' = Some s"
    "Series s = Series ?this' @
       [\<lparr>SeriesItem_Record = SeriesRecord ?g',
         SeriesItem_Files = map FileName (stable_sort CompareInstance (Files ?g'))\<rparr>]"
    by blast
  have "SortFiles env input this = Some s" using sort s(1) by (simp only:)
  moreover have "Series s = Series this @
       [\<lparr>SeriesItem_Record = meta_SeriesRecord (ParseFile env (hd input)),
         SeriesItem_Files = map FileName (stable_sort CompareInstance (map (file_info env) input))\<rparr>]"
  proof -
    have ser: "Series ?this' = Series this" by simp
    from s(2) show ?thesis unfolding g'(1) g'(3) ser .
  qed
  ultimately show ?thesis by blast
qed


text \<open>
  C1. Let the input be a non-empty list of files that the scan accepts (each looks like a
  DICOM file, has pixel data, is not cut off by an abort and passes the query if there is
  one) and that all carry the same non-empty patient ID, the same study UID and the same
  series UID, and let \<^verbatim>\<open>CompareUIDs\<close> give zero on these UIDs against themselves.
  Then \<^verbatim>\<open>SortFiles\<close> appends exactly one entry to the series table. Its files are all
  the input files, sorted by ascending instance number, and files with the same instance
  number keep the order of the input.
\<close>

theorem SortFiles_one_sorted_series:
  assumes "input \<noteq> []" and "\<not> AbortExecute this" and "pid \<noteq> []"
    and "CompareUIDs env (Some su) (Some su) = 0" and "CompareUIDs env (Some se) (Some se) = 0"
    and "\<forall>f\<in>set input. IsDICOMFile (ParseFile env f) \<and> PixelDataFound (ParseFile env f) \<and>
             \<not> AbortRequested env f \<and> (HasQuery this \<longrightarrow> ParserQueryMatched (ParseFile env f)) \<and>
             meta_PatientID (ParseFile env f) = Some pid \<and>
             meta_StudyInstanceUID (ParseFile env f) = Some su \<and>
             meta_SeriesInstanceUID (ParseFile env f) = Some se"
  shows "\<exists>s. SortFiles env input this = Some s \<and>
     Series s = Series this @
       [\<lparr>SeriesItem_Record = meta_SeriesRecord (ParseFile env (hd input)),
         SeriesItem_Files = map FileName (stable_sort CompareInstance (map (file_info env) input))\<rparr>] \<and>
     sorted (map InstanceNumber (stable_sort CompareInstance (map (file_info env) input))) \<and>
     (\<forall>k. filter (\<lambda>fi. InstanceNumber fi = k)
             (stable_sort CompareInstance (map (file_info env) input)) =
           filter (\<lambda>fi. InstanceNumber fi = k) (map (file_info env) input)) \<and>
     set (map FileName (stable_sort CompareInstance (map (file_info env) input))) = set input \<and>
     length (stable_sort CompareInstance (map (file_info env) input)) = length input"
proof -
  let ?fis = "map (file_info env) input"
  have names: "map FileName ?fis = input"
    by (induction input) (simp_all add: file_info_def)
  have "set (map FileName (sort_key InstanceNumber ?fis)) = set (map FileName ?fis)"
    by (simp only: set_map set_sort)
  then have set_eq: "set (map FileName (sort_key InstanceNumber ?fis)) = set input"
    by (simp only: names)
  have sorted: "sorted (map InstanceNumber (sort_key InstanceNumber ?fis))"
    by (rule sorted_sort_key)
  have stable: "\<forall>k. filter (\<lambda>fi. InstanceNumber fi = k) (sort_key InstanceNumber ?fis) =
           filter (\<lambda>fi. InstanceNumber fi = k) ?fis"
    by (simp add: sort_key_stable)
  from SortFiles_same_series [OF assms] obtain s where
    "SortFiles env input this = Some s"
    "Series s = Series this @
       [\<lparr>SeriesItem_Record = meta_SeriesRecord (ParseFile env (hd input)),
         SeriesItem_Files = map FileName (stable_sort CompareInstance ?fis)\<rparr>]"
    by blast
  with set_eq sorted stable show ?thesis
    by (simp only: stable_sort_sort_key length_sort length_map) blast
qed

theorem SortFiles_one_sorted_series_witness:
  "\<exists>s. SortFiles example_env [''f3'', ''x'', ''f1'', ''f2''] (new_directory IMAGE) = Some s \<and>
       Series s = [\<lparr>SeriesItem_Record = ''1.2.3'',
                    SeriesItem_Files = [''f1'', ''x'', ''f2'', ''f3'']\<rparr>]"
  using SortFiles_one_sorted_series
    [of "[''f3'', ''x'', ''f1'', ''f2'']" "new_directory IMAGE" "''P1''" example_env
        "''1.2''" "''1.2.3''"]
  by (simp add: example_env_def example_parse_def example_meta_def new_directory_def
        CompareUIDs_example_def strcmp_same stable_sort_def CompareInstance_def file_info_def
        or_empty_def)
     blast



section \<open>Properties of ProcessDirectory\<close>

text \<open>
  What the guard at the head of \<^verbatim>\<open>ProcessDirectory\<close> computes: the position found
  by \<^verbatim>\<open>lower_bound\<close> is never below the real path, so the test
  \<^verbatim>\<open>*viter < realname\<close> never holds, and the real path is inserted (at the end) only
  when it is above every path visited so far. A real path that is in the list is always
  found, and the list stays strictly sorted.
\<close>

lemma mark_visited_eq:
  "mark_visited env dirname this =
     (if \<forall>y\<in>set (Visited this). y < GetRealPath env dirname
      then Some (this\<lparr>Visited := Visited this @ [GetRealPath env dirname]\<rparr>)
      else None)"
proof -
  let ?x = "GetRealPath env dirname"
  let ?xs = "Visited this"
  let ?lb = "lower_bound ?xs ?x"
  show ?thesis
  proof (cases "\<forall>y\<in>set ?xs. y < ?x")
    case True
    then have "takeWhile (\<lambda>y. y < ?x) ?xs = ?xs" by (simp add: takeWhile_eq_all_conv)
    then have "?lb = length ?xs" by (simp only: lower_bound_def)
    with True show ?thesis by (simp add: mark_visited_def Let_def)
  next
    case False
    then have "takeWhile (\<lambda>y. y < ?x) ?xs \<noteq> ?xs" by (simp add: takeWhile_eq_all_conv)
    then have lt: "?lb < length ?xs"
      unfolding lower_bound_def
      by (metis length_takeWhile_le le_neq_implies_less takeWhile_eq_take take_all_iff order_refl)
    then have "\<not> ?xs ! ?lb < ?x"
      unfolding lower_bound_def by (rule nth_length_takeWhile)
    with lt False show ?thesis by (simp add: mark_visited_def Let_def)
  qed
qed

lemma mark_visited_present:
  "GetRealPath env dirname \<in> set (Visited this) \<Longrightarrow> mark_visited env dirname this = None"
  by (auto simp add: mark_visited_eq)

lemma mark_visited_sorted:
  "sorted_wrt (<) (Visited this) \<Longrightarrow> mark_visited env dirname this = Some this1 \<Longrightarrow>
     sorted_wrt (<) (Visited this1) \<and> GetRealPath env dirname \<in> set (Visited this1)"
  by (auto simp add: mark_visited_eq sorted_wrt_append split: if_splits)


text \<open>
  C5 at a failing input. In the example file system \<open>/d\<close> lists the directory \<open>sub\<close>
  before the directory \<open>abc\<close>. When \<open>/d/abc\<close> is reached, the visited list is
  \<open>[/d, /d/sub]\<close> and does not hold \<open>/d/abc\<close>, but the guard answers as if it did:
  \<open>/d/abc\<close> is neither inserted nor scanned, and its file \<open>/d/abc/c.dcm\<close> is missing
  from the files found.
\<close>

theorem unvisited_directory_not_scanned:
  "''/d/abc'' \<notin> set [''/d'', ''/d/sub''] \<and>
   mark_visited example_env ''/d/abc''
     ((new_directory IMAGE)\<lparr>ScanDepth := 2, Visited := [''/d'', ''/d/sub'']\<rparr>) = None \<and>
   ProcessDirectory example_env ''/d'' 2 ((new_directory IMAGE)\<lparr>ScanDepth := 2\<rparr>, []) =
     Some ((new_directory IMAGE)\<lparr>ScanDepth := 2, Visited := [''/d'', ''/d/sub'']\<rparr>,
           [''/d/a.dcm'', ''/d/sub/b.dcm''])"
  by (simp add: example_env_def new_directory_def mark_visited_def lower_bound_def
        directory_file_stage_def check_abort_def example_join_def Let_def)









section \<open>Properties of ProcessDirectoryFile\<close>

text \<open>The loop with its stack does what the recursive descent does.\<close>

lemma read_item_offset:
  "offset (read_item env dirname items j st) = OffsetOfTheNextDirectoryRecord (items ! j)"
  by (simp add: read_item_def Let_def split: option.splits)

lemma read_item_entryType:
  "entryType (read_item env dirname items j st) = DirectoryRecordType (items ! j)"
  by (simp add: read_item_def Let_def split: option.splits)

lemma pop_entry_offset: "pop_entry items off ty st = Some st1 \<Longrightarrow> offset st1 = off"
  by (auto simp add: pop_entry_def Let_def split: if_splits option.splits result.splits)

lemma descend_offset:
  "descend env dirname items t st = Some st' \<Longrightarrow>
     offset st' = OffsetOfTheNextDirectoryRecord (rec_of t)"
  by (cases t)
     (auto simp add: Let_def read_item_offset pop_entry_offset split: option.splits if_splits)

lemma linked_Cons:
  "linked (t # rest) \<longleftrightarrow>
     node_linked t \<and>
     OffsetOfTheNextDirectoryRecord (rec_of t) =
       (case rest of [] \<Rightarrow> 0 | t2 # ts \<Rightarrow> ByteOffset (rec_of t2)) \<and>
     linked rest"
  by (cases t) (auto simp add: node_linked_def)

lemma linked_hd_nonzero: "linked (t # rest) \<Longrightarrow> ByteOffset (rec_of t) \<noteq> 0"
  by (simp add: linked_Cons node_linked_def)

lemma descend_all_offset:
  "linked ts \<Longrightarrow> ts \<noteq> [] \<Longrightarrow> descend_all env dirname items ts st = Some st' \<Longrightarrow> offset st' = 0"
proof (induction ts arbitrary: st)
  case Nil
  then show ?case by simp
next
  case (Cons t rest)
  from Cons.prems(3) obtain st1 where st1: "descend env dirname items t st = Some st1"
    "descend_all env dirname items rest st1 = Some st'" by (auto split: option.splits)
  show ?case
  proof (cases rest)
    case Nil
    with st1 Cons.prems(1) descend_offset [OF st1(1)] show ?thesis by (simp add: linked_Cons)
  next
    case (Cons t2 ts)
    with Cons.IH [of st1] st1 Cons.prems(1) show ?thesis by (simp add: linked_Cons)
  qed
qed

lemma pop_stack_nonzero: "offset st \<noteq> 0 \<Longrightarrow> pop_stack items stk st = Some (stk, st)"
  by (cases stk) auto

lemma offset_same: "st\<lparr>offset := offset st\<rparr> = st"
  by simp

lemma loop_descend:
  "(\<forall>stk st'. node_linked t \<longrightarrow> descend env dirname items t st = Some st' \<longrightarrow>
      decode_loop env dirname items (stk, st\<lparr>offset := ByteOffset (rec_of t)\<rparr>) =
        resume env dirname items stk st')"
  "(\<forall>stk st'. ts \<noteq> [] \<longrightarrow> linked ts \<longrightarrow> descend_all env dirname items ts st = Some st' \<longrightarrow>
      decode_loop env dirname items (stk, st\<lparr>offset := ByteOffset (rec_of (hd ts))\<rparr>) =
        resume env dirname items stk st')"
proof (induction env dirname items t st and env dirname items ts st
    rule: descend_descend_all.induct)
  case (1 env dirname items r cs st)
  show ?case
  proof (intro allI impI)
    fix stk st'
    assume nl: "node_linked (Node r cs)"
      and d: "descend env dirname items (Node r cs) st = Some st'"
    let ?st0 = "st\<lparr>offset := ByteOffset r\<rparr>"
    from d obtain j where j: "find_unused (offsetToIndexMap st) (ByteOffset r) = Some j"
      "items ! j = r"
      by (auto split: option.splits if_splits)
    let ?st1 = "read_item env dirname items j ?st0"
    from nl have nz: "ByteOffset r \<noteq> 0" by (simp add: node_linked_def)
    have loop: "decode_loop env dirname items (stk, ?st0) =
        (case decode_step env dirname items (stk, ?st0) of
           None \<Rightarrow> None | Some q \<Rightarrow> decode_loop env dirname items q)"
      using nz by (subst decode_loop.simps) simp
    show "decode_loop env dirname items (stk, st\<lparr>offset := ByteOffset (rec_of (Node r cs))\<rparr>) =
        resume env dirname items stk st'"
    proof (cases cs)
      case Nil
      with nl j have ch: "OffsetOfReferencedLowerLevelDirectoryEntity (items ! j) = 0"
        by (simp add: node_linked_def)
      from d j Nil have st': "st' = ?st1" by (simp add: Let_def)
      have "decode_step env dirname items (stk, ?st0) = pop_stack items stk ?st1"
        using j ch by (simp add: decode_step_def Let_def)
      with loop st' show ?thesis by (simp add: resume_def)
    next
      case (Cons c cs')
      with nl j have ch: "OffsetOfReferencedLowerLevelDirectoryEntity (items ! j) = ByteOffset (rec_of c)"
        and lcs: "linked cs"
        by (simp_all add: node_linked_def)
      from lcs Cons have cnz: "ByteOffset (rec_of c) \<noteq> 0" by (simp add: linked_hd_nonzero)
      from d j Cons obtain st2 where st2: "descend_all env dirname items cs ?st1 = Some st2"
        "pop_entry items (OffsetOfTheNextDirectoryRecord r) (DirectoryRecordType r) st2 = Some st'"
        by (auto simp add: Let_def split: option.splits)
      have step: "decode_step env dirname items (stk, ?st0) =
          Some ((OffsetOfTheNextDirectoryRecord r, DirectoryRecordType r) # stk,
                ?st1\<lparr>offset := ByteOffset (rec_of c)\<rparr>)"
        using j ch cnz by (simp add: decode_step_def Let_def read_item_offset read_item_entryType)
      have ih: "decode_loop env dirname items
           ((OffsetOfTheNextDirectoryRecord r, DirectoryRecordType r) # stk,
            ?st1\<lparr>offset := ByteOffset (rec_of (hd cs))\<rparr>) =
          resume env dirname items
            ((OffsetOfTheNextDirectoryRecord r, DirectoryRecordType r) # stk) st2"
        using "1.IH" [OF j(1) _ refl] j(2) Cons lcs st2(1) by simp
      have z: "offset st2 = 0" using descend_all_offset [OF lcs _ st2(1)] Cons by simp
      have "resume env dirname items
            ((OffsetOfTheNextDirectoryRecord r, DirectoryRecordType r) # stk) st2 =
          resume env dirname items stk st'"
        using z st2(2) by (simp add: resume_def)
      with loop step ih Cons show ?thesis by simp
    qed
  qed
next
  case (2 env dirname items st)
  then show ?case by simp
next
  case (3 env dirname items t ts st)
  show ?case
  proof (intro allI impI)
    fix stk st'
    assume l: "linked (t # ts)" and d: "descend_all env dirname items (t # ts) st = Some st'"
    from d obtain st1 where st1: "descend env dirname items t st = Some st1"
      "descend_all env dirname items ts st1 = Some st'" by (auto split: option.splits)
    from l have nl: "node_linked t" and lts: "linked ts"
      and nx: "OffsetOfTheNextDirectoryRecord (rec_of t) =
          (case ts of [] \<Rightarrow> 0 | t2 # ts' \<Rightarrow> ByteOffset (rec_of t2))"
      by (simp_all add: linked_Cons)
    from "3.IH"(1) nl st1(1)
    have first: "decode_loop env dirname items (stk, st\<lparr>offset := ByteOffset (rec_of t)\<rparr>) =
        resume env dirname items stk st1" by blast
    show "decode_loop env dirname items (stk, st\<lparr>offset := ByteOffset (rec_of (hd (t # ts)))\<rparr>) =
        resume env dirname items stk st'"
    proof (cases ts)
      case Nil
      with st1 first show ?thesis by simp
    next
      case (Cons t2 ts')
      with nx descend_offset [OF st1(1)] have o1: "offset st1 = ByteOffset (rec_of t2)" by simp
      with lts Cons have "offset st1 \<noteq> 0" by (simp add: linked_hd_nonzero)
      then have "resume env dirname items stk st1 = decode_loop env dirname items (stk, st1)"
        by (simp add: resume_def pop_stack_nonzero)
      also have "\<dots> = decode_loop env dirname items (stk, st1\<lparr>offset := ByteOffset (rec_of (hd ts))\<rparr>)"
        using o1 [symmetric] Cons by simp
      also have "\<dots> = resume env dirname items stk st'"
        using "3.IH"(2) [OF st1(1)] Cons lts st1(2) by simp
      finally show ?thesis using first by simp
    qed
  qed
qed


text \<open>
  The descent on the state of the loop agrees with the descent without indices, as long
  as the offset map leads to the records that are still to be read.
\<close>

lemma abstract_read_item:
  "abstract items (read_item env dirname items j st) =
     tree_read env dirname (items ! j) (abstract items st)"
  by (simp add: read_item_def tree_read_def abstract_def Let_def split: option.splits)

lemma abstract_offset [simp]: "abstract items (st\<lparr>offset := x\<rparr>) = abstract items st"
  by (simp add: abstract_def)

lemma read_item_files_out: "files_out (read_item env dirname items j st) = files_out st"
  by (simp add: read_item_def Let_def split: option.splits)

lemma pop_entry_leave:
  assumes "files_out st = None" and "tree_leave ty (abstract items st) = Some D'"
  shows "\<exists>st'. pop_entry items off ty st = Some st' \<and> abstract items st' = D' \<and>
            files_out st' = None \<and> offsetToIndexMap st' = offsetToIndexMap st"
  using assms
  by (auto simp add: pop_entry_def tree_leave_def abstract_def Let_def
      split: if_splits result.splits)

lemma unread_find:
  "unread items m rs \<Longrightarrow> r \<in> set rs \<Longrightarrow>
     \<exists>j. find_unused m (ByteOffset r) = Some j \<and> items ! j = r"
  by (auto simp add: unread_def list_all_iff find_unused_def split: option.splits)

lemma unread_cong:
  "unread items m rs \<Longrightarrow> \<forall>r\<in>set rs. map_of m' (ByteOffset r) = map_of m (ByteOffset r) \<Longrightarrow>
     unread items m' rs"
  by (simp add: unread_def list_all_iff)

lemma unread_subset: "unread items m rs \<Longrightarrow> set rs' \<subseteq> set rs \<Longrightarrow> unread items m rs'"
  by (auto simp add: unread_def list_all_iff)

lemma descend_abstract:
  "(\<forall>D'. unread items (offsetToIndexMap st) (records t) \<longrightarrow>
      distinct (map ByteOffset (records t)) \<longrightarrow> files_out st = None \<longrightarrow>
      tree_descend env dirname t (abstract items st) = Some D' \<longrightarrow>
      (\<exists>st'. descend env dirname items t st = Some st' \<and> abstract items st' = D' \<and>
         files_out st' = None \<and>
         (\<forall>k. k \<notin> ByteOffset ` set (records t) \<longrightarrow>
            map_of (offsetToIndexMap st') k = map_of (offsetToIndexMap st) k)))"
  "(\<forall>D'. unread items (offsetToIndexMap st) (forest_records ts) \<longrightarrow>
      distinct (map ByteOffset (forest_records ts)) \<longrightarrow> files_out st = None \<longrightarrow>
      tree_descend_all env dirname ts (abstract items st) = Some D' \<longrightarrow>
      (\<exists>st'. descend_all env dirname items ts st = Some st' \<and> abstract items st' = D' \<and>
         files_out st' = None \<and>
         (\<forall>k. k \<notin> ByteOffset ` set (forest_records ts) \<longrightarrow>
            map_of (offsetToIndexMap st') k = map_of (offsetToIndexMap st) k)))"
proof (induction env dirname items t st and env dirname items ts st
    rule: descend_descend_all.induct)
  case (1 env dirname items r cs st)
  show ?case
  proof (intro allI impI)
    fix D'
    assume un: "unread items (offsetToIndexMap st) (records (Node r cs))"
      and di: "distinct (map ByteOffset (records (Node r cs)))"
      and fo: "files_out st = None"
      and td: "tree_descend env dirname (Node r cs) (abstract items st) = Some D'"
    from unread_find [OF un, of r] obtain j where
      j: "find_unused (offsetToIndexMap st) (ByteOffset r) = Some j" "items ! j = r" by auto
    let ?st1 = "read_item env dirname items j (st\<lparr>offset := ByteOffset r\<rparr>)"
    let ?D1 = "tree_read env dirname r (abstract items st)"
    have a1: "abstract items ?st1 = ?D1" using j(2) by (simp add: abstract_read_item)
    have f1: "files_out ?st1 = None" using fo by (simp add: read_item_files_out)
    have m1: "\<forall>k. k \<noteq> ByteOffset r \<longrightarrow>
        map_of (offsetToIndexMap ?st1) k = map_of (offsetToIndexMap st) k"
      by (simp add: read_item_map update_conv')
    show "\<exists>st'. descend env dirname items (Node r cs) st = Some st' \<and> abstract items st' = D' \<and>
         files_out st' = None \<and>
         (\<forall>k. k \<notin> ByteOffset ` set (records (Node r cs)) \<longrightarrow>
            map_of (offsetToIndexMap st') k = map_of (offsetToIndexMap st) k)"
    proof (cases "cs = []")
      case True
      with td have "D' = ?D1" by (simp add: Let_def)
      with True j a1 f1 m1 show ?thesis by (simp add: Let_def)
    next
      case False
      with td obtain D2 where D2: "tree_descend_all env dirname cs ?D1 = Some D2"
        "tree_leave (DirectoryRecordType r) D2 = Some D'"
        by (auto simp add: Let_def split: option.splits)
      have "ByteOffset r \<notin> ByteOffset ` set (forest_records cs)"
        using di by (simp add: forest_records_def)
      then have sub: "\<forall>r'\<in>set (forest_records cs). ByteOffset r' \<noteq> ByteOffset r"
        by (metis imageI)
      have un1: "unread items (offsetToIndexMap ?st1) (forest_records cs)"
      proof (rule unread_cong)
        show "unread items (offsetToIndexMap st) (forest_records cs)"
          using un by (auto intro: unread_subset simp add: forest_records_def)
        show "\<forall>r'\<in>set (forest_records cs).
            map_of (offsetToIndexMap ?st1) (ByteOffset r') =
            map_of (offsetToIndexMap st) (ByteOffset r')"
          using sub m1 by simp
      qed
      have di1: "distinct (map ByteOffset (forest_records cs))"
        using di by (simp add: forest_records_def)
      from "1.IH" [OF j(1) _ refl False] j(2) un1 di1 f1 D2(1) a1
      obtain st2 where st2: "descend_all env dirname items cs ?st1 = Some st2"
        "abstract items st2 = D2" "files_out st2 = None"
        "\<forall>k. k \<notin> ByteOffset ` set (forest_records cs) \<longrightarrow>
            map_of (offsetToIndexMap st2) k = map_of (offsetToIndexMap ?st1) k"
        by auto
      from pop_entry_leave [OF st2(3), of "DirectoryRecordType r" items D'
          "OffsetOfTheNextDirectoryRecord r"] D2(2) st2(2)
      obtain st' where st': "pop_entry items (OffsetOfTheNextDirectoryRecord r)
          (DirectoryRecordType r) st2 = Some st'" "abstract items st' = D'"
          "files_out st' = None" "offsetToIndexMap st' = offsetToIndexMap st2"
        by auto
      have "descend env dirname items (Node r cs) st = Some st'"
        using j False st2(1) st'(1) by (simp add: Let_def)
      moreover have "\<forall>k. k \<notin> ByteOffset ` set (records (Node r cs)) \<longrightarrow>
            map_of (offsetToIndexMap st') k = map_of (offsetToIndexMap st) k"
        using st'(4) st2(4) m1 by (auto simp add: forest_records_def)
      ultimately show ?thesis using st'(2,3) by blast
    qed
  qed
next
  case (2 env dirname items st)
  then show ?case by simp
next
  case (3 env dirname items t ts st)
  show ?case
  proof (intro allI impI)
    fix D'
    assume un: "unread items (offsetToIndexMap st) (forest_records (t # ts))"
      and di: "distinct (map ByteOffset (forest_records (t # ts)))"
      and fo: "files_out st = None"
      and td: "tree_descend_all env dirname (t # ts) (abstract items st) = Some D'"
    from td obtain D1 where D1: "tree_descend env dirname t (abstract items st) = Some D1"
      "tree_descend_all env dirname ts D1 = Some D'" by (auto split: option.splits)
    have unt: "unread items (offsetToIndexMap st) (records t)"
      using un by (auto intro: unread_subset simp add: forest_records_def)
    have dit: "distinct (map ByteOffset (records t))"
      using di by (simp add: forest_records_def)
    from "3.IH"(1) unt dit fo D1(1)
    obtain st1 where st1: "descend env dirname items t st = Some st1"
      "abstract items st1 = D1" "files_out st1 = None"
      "\<forall>k. k \<notin> ByteOffset ` set (records t) \<longrightarrow>
            map_of (offsetToIndexMap st1) k = map_of (offsetToIndexMap st) k"
      by blast
    have "ByteOffset ` set (records t) \<inter> ByteOffset ` set (forest_records ts) = {}"
      using di by (simp add: forest_records_def)
    then have disj: "\<forall>r'\<in>set (forest_records ts). ByteOffset r' \<notin> ByteOffset ` set (records t)"
      by blast
    have un1: "unread items (offsetToIndexMap st1) (forest_records ts)"
    proof (rule unread_cong)
      show "unread items (offsetToIndexMap st) (forest_records ts)"
        using un by (auto intro: unread_subset simp add: forest_records_def)
      show "\<forall>r'\<in>set (forest_records ts).
          map_of (offsetToIndexMap st1) (ByteOffset r') =
          map_of (offsetToIndexMap st) (ByteOffset r')"
        using disj st1(4) by simp
    qed
    have di1: "distinct (map ByteOffset (forest_records ts))"
      using di by (simp add: forest_records_def)
    from "3.IH"(2) [OF st1(1)] un1 di1 st1(3) D1(2) st1(2)
    obtain st' where st': "descend_all env dirname items ts st1 = Some st'"
      "abstract items st' = D'" "files_out st' = None"
      "\<forall>k. k \<notin> ByteOffset ` set (forest_records ts) \<longrightarrow>
            map_of (offsetToIndexMap st') k = map_of (offsetToIndexMap st1) k"
      by auto
    have "descend_all env dirname items (t # ts) st = Some st'"
      using st1(1) st'(1) by simp
    moreover have "\<forall>k. k \<notin> ByteOffset ` set (forest_records (t # ts)) \<longrightarrow>
            map_of (offsetToIndexMap st') k = map_of (offsetToIndexMap st) k"
    proof (intro allI impI)
      fix k
      assume "k \<notin> ByteOffset ` set (forest_records (t # ts))"
      then have k: "k \<notin> ByteOffset ` set (records t)" "k \<notin> ByteOffset ` set (forest_records ts)"
        by (auto simp add: forest_records_def)
      from st'(4) k(2) have "map_of (offsetToIndexMap st') k = map_of (offsetToIndexMap st1) k"
        by blast
      also from st1(4) k(1) have "\<dots> = map_of (offsetToIndexMap st) k" by blast
      finally show "map_of (offsetToIndexMap st') k = map_of (offsetToIndexMap st) k" .
    qed
    ultimately show "\<exists>st'. descend_all env dirname items (t # ts) st = Some st' \<and>
         abstract items st' = D' \<and> files_out st' = None \<and>
         (\<forall>k. k \<notin> ByteOffset ` set (forest_records (t # ts)) \<longrightarrow>
            map_of (offsetToIndexMap st') k = map_of (offsetToIndexMap st) k)"
      using st'(2,3) by blast
  qed
qed


text \<open>
  On a forest of patients, studies, series and images without an empty level, the descent
  makes the calls of \<^verbatim>\<open>AddSeriesFileNames\<close> that the forest stands for.
\<close>

lemma apply_calls_append:
  "apply_calls (xs @ ys) d =
     (case apply_calls xs d of None \<Rightarrow> None | Some d1 \<Rightarrow> apply_calls ys d1)"
  by (induction xs arbitrary: d) (auto split: result.splits)

lemma descend_images:
  "list_all image_ok imgs \<Longrightarrow>
   tree_descend_all env dirname imgs D =
     Some (D\<lparr>d_fileNames := d_fileNames D @ map (image_name env dirname) imgs\<rparr>)"
proof (induction imgs arbitrary: D)
  case Nil
  then show ?case by simp
next
  case (Cons i imgs)
  obtain r cs where i: "i = Node r cs" by (cases i)
  from Cons.prems i have ok: "DirectoryRecordType r = ''IMAGE''" "cs = []"
    and "case ReferencedFileID r of None \<Rightarrow> False | Some fileID \<Rightarrow> fileID \<noteq> []"
    by (simp_all add: image_ok_def)
  then obtain fileID where f: "ReferencedFileID r = Some fileID" "fileID \<noteq> []"
    by (auto split: option.splits)
  have one: "tree_descend env dirname i D =
      Some (D\<lparr>d_fileNames := d_fileNames D @ [image_name env dirname i]\<rparr>)"
    using i ok f by (simp add: tree_read_def image_name_def Let_def)
  from Cons.prems have "list_all image_ok imgs" by simp
  from Cons.IH [OF this] one show ?case by simp
qed

lemma descend_series:
  assumes "series_ok e" and "children e \<noteq> []" and "d_fileNames D = []"
  shows "tree_descend env dirname e D =
    (case do_call (series_call env dirname (d_patientIdx D) (d_studyIdx D)
                     (d_patient D) (d_study D) e) (d_directory D) of
       Ok d \<Rightarrow> Some (D\<lparr>d_series := RecordItem (rec_of e), d_directory := d, d_fileNames := []\<rparr>)
     | Rejected d \<Rightarrow> Some (D\<lparr>d_series := RecordItem (rec_of e), d_directory := d, d_fileNames := []\<rparr>)
     | OutOfBounds \<Rightarrow> None)"
proof -
  obtain r cs where e: "e = Node r cs" by (cases e)
  from assms e have ty: "DirectoryRecordType r = ''SERIES''" and im: "list_all image_ok cs"
    and ne: "cs \<noteq> []"
    by (simp_all add: series_ok_def)
  have rd: "tree_read env dirname r D = D\<lparr>d_series := RecordItem r\<rparr>"
    using ty by (simp add: tree_read_def)
  show ?thesis
    using e ne rd descend_images [OF im, of env dirname "D\<lparr>d_series := RecordItem r\<rparr>"] ty assms(3)
    by (simp add: Let_def tree_leave_def do_call_def series_call_def split: result.splits)
qed

lemma descend_series_list:
  "\<lbrakk>list_all series_ok sers; list_all (\<lambda>e. children e \<noteq> []) sers; d_fileNames D = [];
    apply_calls (map (series_call env dirname (d_patientIdx D) (d_studyIdx D)
                        (d_patient D) (d_study D)) sers) (d_directory D) = Some d'\<rbrakk>
   \<Longrightarrow> \<exists>D'. tree_descend_all env dirname sers D = Some D' \<and> d_directory D' = d' \<and>
          d_fileNames D' = [] \<and> d_patientIdx D' = d_patientIdx D \<and>
          d_studyIdx D' = d_studyIdx D \<and> d_patient D' = d_patient D \<and>
          d_study D' = d_study D"
proof (induction sers arbitrary: D)
  case Nil
  then show ?case by simp
next
  case (Cons e sers)
  let ?c = "series_call env dirname (d_patientIdx D) (d_studyIdx D) (d_patient D) (d_study D) e"
  from Cons.prems have ok: "series_ok e" "children e \<noteq> []" by simp_all
  from Cons.prems(4) obtain d1 where d1: "do_call ?c (d_directory D) = Ok d1 \<or>
      do_call ?c (d_directory D) = Rejected d1"
    and rest: "apply_calls (map (series_call env dirname (d_patientIdx D) (d_studyIdx D)
                        (d_patient D) (d_study D)) sers) d1 = Some d'"
    by (auto split: result.splits)
  let ?D1 = "D\<lparr>d_series := RecordItem (rec_of e), d_directory := d1, d_fileNames := []\<rparr>"
  have one: "tree_descend env dirname e D = Some ?D1"
    using descend_series [OF ok Cons.prems(3), of env dirname] d1 by auto
  have "\<exists>D'. tree_descend_all env dirname sers ?D1 = Some D' \<and> d_directory D' = d' \<and>
          d_fileNames D' = [] \<and> d_patientIdx D' = d_patientIdx ?D1 \<and>
          d_studyIdx D' = d_studyIdx ?D1 \<and> d_patient D' = d_patient ?D1 \<and>
          d_study D' = d_study ?D1"
    using Cons.prems(1,2) rest by (intro Cons.IH) simp_all
  with one show ?case by simp
qed

lemma descend_study:
  assumes "study_ok s" and "children s \<noteq> []" and "list_all (\<lambda>e. children e \<noteq> []) (children s)"
    and "d_fileNames D = []"
    and "apply_calls (map (series_call env dirname (d_patientIdx D) (d_studyIdx D)
                        (d_patient D) (RecordItem (rec_of s))) (children s)) (d_directory D) = Some d'"
  shows "\<exists>D'. tree_descend env dirname s D = Some D' \<and> d_directory D' = d' \<and>
          d_fileNames D' = [] \<and> d_patientIdx D' = d_patientIdx D \<and>
          d_studyIdx D' = d_studyIdx D + 1 \<and> d_patient D' = d_patient D"
proof -
  obtain r cs where s: "s = Node r cs" by (cases s)
  from assms s have ty: "DirectoryRecordType r = ''STUDY''" and se: "list_all series_ok cs"
    and ne: "cs \<noteq> []" and full: "list_all (\<lambda>e. children e \<noteq> []) cs"
    by (simp_all add: study_ok_def)
  let ?D1 = "D\<lparr>d_study := RecordItem r\<rparr>"
  have rd: "tree_read env dirname r D = ?D1"
    using ty by (simp add: tree_read_def)
  have "\<exists>D'. tree_descend_all env dirname cs ?D1 = Some D' \<and> d_directory D' = d' \<and>
          d_fileNames D' = [] \<and> d_patientIdx D' = d_patientIdx ?D1 \<and>
          d_studyIdx D' = d_studyIdx ?D1 \<and> d_patient D' = d_patient ?D1 \<and>
          d_study D' = d_study ?D1"
    using se full assms(4,5) s by (intro descend_series_list) simp_all
  then obtain D2 where D2: "tree_descend_all env dirname cs ?D1 = Some D2" "d_directory D2 = d'"
      "d_fileNames D2 = []" "d_patientIdx D2 = d_patientIdx D" "d_studyIdx D2 = d_studyIdx D"
      "d_patient D2 = d_patient D"
    by auto
  have "tree_descend env dirname s D = Some (D2\<lparr>d_studyIdx := d_studyIdx D2 + 1\<rparr>)"
    using s ne rd D2(1) ty by (simp add: Let_def tree_leave_def)
  with D2 show ?thesis by simp
qed

lemma descend_study_list:
  "\<lbrakk>list_all study_ok studies; list_all (\<lambda>s. children s \<noteq> []) studies;
    list_all (\<lambda>s. list_all (\<lambda>e. children e \<noteq> []) (children s)) studies;
    d_fileNames D = [];
    apply_calls (study_calls env dirname (d_patientIdx D) (d_studyIdx D) (d_patient D) studies)
      (d_directory D) = Some d'\<rbrakk>
   \<Longrightarrow> \<exists>D'. tree_descend_all env dirname studies D = Some D' \<and> d_directory D' = d' \<and>
          d_fileNames D' = [] \<and> d_patientIdx D' = d_patientIdx D \<and>
          d_studyIdx D' = d_studyIdx D + int (length studies) \<and> d_patient D' = d_patient D"
proof (induction studies arbitrary: D)
  case Nil
  then show ?case by simp
next
  case (Cons s studies)
  from Cons.prems(5) obtain d1 where
    d1: "apply_calls (map (series_call env dirname (d_patientIdx D) (d_studyIdx D)
                        (d_patient D) (RecordItem (rec_of s))) (children s)) (d_directory D) = Some d1"
    and rest: "apply_calls (study_calls env dirname (d_patientIdx D) (d_studyIdx D + 1)
                 (d_patient D) studies) d1 = Some d'"
    by (auto simp add: apply_calls_append split: option.splits)
  from Cons.prems have "study_ok s" "children s \<noteq> []"
    "list_all (\<lambda>e. children e \<noteq> []) (children s)" by simp_all
  from descend_study [OF this Cons.prems(4) d1]
  obtain D1 where D1: "tree_descend env dirname s D = Some D1" "d_directory D1 = d1"
      "d_fileNames D1 = []" "d_patientIdx D1 = d_patientIdx D"
      "d_studyIdx D1 = d_studyIdx D + 1" "d_patient D1 = d_patient D"
    by auto
  have "\<exists>D'. tree_descend_all env dirname studies D1 = Some D' \<and> d_directory D' = d' \<and>
          d_fileNames D' = [] \<and> d_patientIdx D' = d_patientIdx D1 \<and>
          d_studyIdx D' = d_studyIdx D1 + int (length studies) \<and> d_patient D' = d_patient D1"
    using Cons.prems(1-3) D1 rest by (intro Cons.IH) simp_all
  with D1 show ?case by auto
qed

lemma descend_patient:
  assumes "patient_ok p" and "children p \<noteq> []" and "list_all (\<lambda>s. children s \<noteq> []) (children p)"
    and "list_all (\<lambda>s. list_all (\<lambda>e. children e \<noteq> []) (children s)) (children p)"
    and "d_fileNames D = []"
    and "apply_calls (study_calls env dirname (d_patientIdx D) (d_studyIdx D)
           (RecordItem (rec_of p)) (children p)) (d_directory D) = Some d'"
  shows "\<exists>D'. tree_descend env dirname p D = Some D' \<and> d_directory D' = d' \<and>
          d_fileNames D' = [] \<and> d_patientIdx D' = d_patientIdx D + 1 \<and>
          d_studyIdx D' = d_studyIdx D + int (length (children p))"
proof -
  obtain r cs where p: "p = Node r cs" by (cases p)
  from assms p have ty: "DirectoryRecordType r = ''PATIENT''" and st: "list_all study_ok cs"
    and ne: "cs \<noteq> []" and full: "list_all (\<lambda>s. children s \<noteq> []) cs"
      "list_all (\<lambda>s. list_all (\<lambda>e. children e \<noteq> []) (children s)) cs"
    by (simp_all add: patient_ok_def)
  let ?D1 = "D\<lparr>d_patient := RecordItem r\<rparr>"
  have rd: "tree_read env dirname r D = ?D1"
    using ty by (simp add: tree_read_def)
  have "\<exists>D'. tree_descend_all env dirname cs ?D1 = Some D' \<and> d_directory D' = d' \<and>
          d_fileNames D' = [] \<and> d_patientIdx D' = d_patientIdx ?D1 \<and>
          d_studyIdx D' = d_studyIdx ?D1 + int (length cs) \<and> d_patient D' = d_patient ?D1"
    using st full assms(5,6) p by (intro descend_study_list) simp_all
  then obtain D2 where D2: "tree_descend_all env dirname cs ?D1 = Some D2" "d_directory D2 = d'"
      "d_fileNames D2 = []" "d_patientIdx D2 = d_patientIdx D"
      "d_studyIdx D2 = d_studyIdx D + int (length cs)"
    by auto
  have "tree_descend env dirname p D = Some (D2\<lparr>d_patientIdx := d_patientIdx D2 + 1\<rparr>)"
    using p ne rd D2(1) ty by (simp add: Let_def tree_leave_def)
  with D2 p show ?thesis by simp
qed

lemma descend_patient_list:
  "\<lbrakk>list_all patient_ok forest; full_levels forest; d_fileNames D = [];
    apply_calls (patient_calls env dirname (d_patientIdx D) (d_studyIdx D) forest)
      (d_directory D) = Some d'\<rbrakk>
   \<Longrightarrow> \<exists>D'. tree_descend_all env dirname forest D = Some D' \<and> d_directory D' = d'"
proof (induction forest arbitrary: D)
  case Nil
  then show ?case by simp
next
  case (Cons p forest)
  from Cons.prems(4) obtain d1 where
    d1: "apply_calls (study_calls env dirname (d_patientIdx D) (d_studyIdx D)
           (RecordItem (rec_of p)) (children p)) (d_directory D) = Some d1"
    and rest: "apply_calls (patient_calls env dirname (d_patientIdx D + 1)
           (d_studyIdx D + int (length (children p))) forest) d1 = Some d'"
    by (auto simp add: apply_calls_append split: option.splits)
  from Cons.prems(1,2) have "patient_ok p" "children p \<noteq> []"
    "list_all (\<lambda>s. children s \<noteq> []) (children p)"
    "list_all (\<lambda>s. list_all (\<lambda>e. children e \<noteq> []) (children s)) (children p)"
    by (simp_all add: full_levels_def list_all_iff)
  from descend_patient [OF this Cons.prems(3) d1]
  obtain D1 where D1: "tree_descend env dirname p D = Some D1" "d_directory D1 = d1"
      "d_fileNames D1 = []" "d_patientIdx D1 = d_patientIdx D + 1"
      "d_studyIdx D1 = d_studyIdx D + int (length (children p))"
    by auto
  have "\<exists>D'. tree_descend_all env dirname forest D1 = Some D' \<and> d_directory D' = d'"
    using Cons.prems(1,2) D1 rest by (intro Cons.IH) (simp_all add: full_levels_def)
  with D1 show ?case by auto
qed


text \<open>These calls all succeed, and they fill the tables as counted here.\<close>

lemma do_call_valid:
  assumes "call_study c = int (length (Studies d)) \<or>
           call_study c = int (length (Studies d)) - 1 \<and> Studies d \<noteq> []"
    and "call_patient c = int (length (Patients d)) \<or>
         call_patient c = int (length (Patients d)) - 1 \<and> Patients d \<noteq> []"
  shows "\<exists>d'. do_call c d = Ok d' \<and>
     Series d' = Series d @
       [\<lparr>SeriesItem_Record = call_seriesRecord c, SeriesItem_Files = call_files c\<rparr>] \<and>
     length (Studies d') =
       length (Studies d) + (if call_study c = int (length (Studies d)) then 1 else 0) \<and>
     length (Patients d') =
       length (Patients d) + (if call_patient c = int (length (Patients d)) then 1 else 0)"
  using assms
  by (auto simp add: do_call_def AddSeriesFileNames_def Let_def)

lemma calls_open_study:
  "\<lbrakk>Studies d \<noteq> []; Patients d \<noteq> []; s = int (length (Studies d)) - 1;
    p = int (length (Patients d)) - 1\<rbrakk>
   \<Longrightarrow> \<exists>d'. apply_calls (map (series_call env dirname p s pr sr) sers) d = Some d' \<and>
          Series d' = Series d @ map (series_entry env dirname) sers \<and>
          length (Studies d') = length (Studies d) \<and>
          length (Patients d') = length (Patients d)"
proof (induction sers arbitrary: d)
  case Nil
  then show ?case by simp
next
  case (Cons e sers)
  let ?c = "series_call env dirname p s pr sr e"
  have "\<exists>d'. do_call ?c d = Ok d' \<and>
     Series d' = Series d @
       [\<lparr>SeriesItem_Record = call_seriesRecord ?c, SeriesItem_Files = call_files ?c\<rparr>] \<and>
     length (Studies d') =
       length (Studies d) + (if call_study ?c = int (length (Studies d)) then 1 else 0) \<and>
     length (Patients d') =
       length (Patients d) + (if call_patient ?c = int (length (Patients d)) then 1 else 0)"
    using Cons.prems by (intro do_call_valid) (simp_all add: series_call_def)
  then obtain d1 where d1: "do_call ?c d = Ok d1"
    "Series d1 = Series d @ [series_entry env dirname e]"
    "length (Studies d1) = length (Studies d)" "length (Patients d1) = length (Patients d)"
    using Cons.prems by (auto simp add: series_call_def series_entry_def)
  have "\<exists>d'. apply_calls (map (series_call env dirname p s pr sr) sers) d1 = Some d' \<and>
          Series d' = Series d1 @ map (series_entry env dirname) sers \<and>
          length (Studies d') = length (Studies d1) \<and>
          length (Patients d') = length (Patients d1)"
    using Cons.prems d1 by (intro Cons.IH) auto
  with d1 show ?case by auto
qed

lemma calls_study:
  assumes "sers \<noteq> []" and "s = int (length (Studies d))"
    and "p = int (length (Patients d)) \<or> p = int (length (Patients d)) - 1 \<and> Patients d \<noteq> []"
  shows "\<exists>d'. apply_calls (map (series_call env dirname p s pr sr) sers) d = Some d' \<and>
          Series d' = Series d @ map (series_entry env dirname) sers \<and>
          length (Studies d') = length (Studies d) + 1 \<and>
          length (Patients d') =
            length (Patients d) + (if p = int (length (Patients d)) then 1 else 0) \<and>
          Patients d' \<noteq> [] \<and> p = int (length (Patients d')) - 1"
proof -
  from assms(1) obtain e rest where sers: "sers = e # rest" by (cases sers) auto
  let ?c = "series_call env dirname p s pr sr e"
  have "\<exists>d'. do_call ?c d = Ok d' \<and>
     Series d' = Series d @
       [\<lparr>SeriesItem_Record = call_seriesRecord ?c, SeriesItem_Files = call_files ?c\<rparr>] \<and>
     length (Studies d') =
       length (Studies d) + (if call_study ?c = int (length (Studies d)) then 1 else 0) \<and>
     length (Patients d') =
       length (Patients d) + (if call_patient ?c = int (length (Patients d)) then 1 else 0)"
    using assms(2,3) by (intro do_call_valid) (simp_all add: series_call_def)
  then obtain d1 where d1: "do_call ?c d = Ok d1"
    "Series d1 = Series d @ [series_entry env dirname e]"
    "length (Studies d1) = length (Studies d) + 1"
    "length (Patients d1) =
       length (Patients d) + (if p = int (length (Patients d)) then 1 else 0)"
    using assms(2) by (auto simp add: series_call_def series_entry_def)
  have ne: "Studies d1 \<noteq> []" "Patients d1 \<noteq> []"
    using d1(3,4) assms(3) by (auto split: if_splits)
  have idx: "s = int (length (Studies d1)) - 1" "p = int (length (Patients d1)) - 1"
    using d1(3,4) assms(2,3) by (auto split: if_splits)
  from calls_open_study [OF ne idx, of env dirname pr sr rest]
  obtain d' where d': "apply_calls (map (series_call env dirname p s pr sr) rest) d1 = Some d'"
    "Series d' = Series d1 @ map (series_entry env dirname) rest"
    "length (Studies d') = length (Studies d1)" "length (Patients d') = length (Patients d1)"
    by auto
  have a: "apply_calls (map (series_call env dirname p s pr sr) sers) d = Some d'"
    using sers d1(1) d'(1) by simp
  have b: "Series d' = Series d @ map (series_entry env dirname) sers"
    using sers d1(2) d'(2) by simp
  have c: "length (Studies d') = length (Studies d) + 1"
    using d1(3) d'(3) by simp
  have e: "length (Patients d') =
            length (Patients d) + (if p = int (length (Patients d)) then 1 else 0)"
    using d1(4) d'(4) by simp
  have f: "Patients d' \<noteq> []" using d'(4) ne(2) by auto
  have g: "p = int (length (Patients d')) - 1" using idx(2) d'(4) by simp
  from a b c e f g show ?thesis by blast
qed

lemma calls_study_list:
  "\<lbrakk>list_all (\<lambda>s. children s \<noteq> []) studies; s = int (length (Studies d));
    p = int (length (Patients d)) \<or> p = int (length (Patients d)) - 1 \<and> Patients d \<noteq> []\<rbrakk>
   \<Longrightarrow> \<exists>d'. apply_calls (study_calls env dirname p s pr studies) d = Some d' \<and>
          Series d' = Series d @ study_series env dirname studies \<and>
          length (Studies d') = length (Studies d) + length studies \<and>
          length (Patients d') =
            length (Patients d) +
              (if studies \<noteq> [] \<and> p = int (length (Patients d)) then 1 else 0)"
proof (induction studies arbitrary: d s)
  case Nil
  then show ?case by (simp add: study_series_def)
next
  case (Cons st studies)
  from Cons.prems(1) have ne: "children st \<noteq> []" by simp
  from calls_study [OF ne Cons.prems(2,3), of env dirname pr "RecordItem (rec_of st)"]
  obtain d1 where d1:
    "apply_calls (map (series_call env dirname p s pr (RecordItem (rec_of st))) (children st)) d
       = Some d1"
    "Series d1 = Series d @ map (series_entry env dirname) (children st)"
    "length (Studies d1) = length (Studies d) + 1"
    "length (Patients d1) =
       length (Patients d) + (if p = int (length (Patients d)) then 1 else 0)"
    "Patients d1 \<noteq> []" "p = int (length (Patients d1)) - 1"
    by blast
  have "\<exists>d'. apply_calls (study_calls env dirname p (s + 1) pr studies) d1 = Some d' \<and>
          Series d' = Series d1 @ study_series env dirname studies \<and>
          length (Studies d') = length (Studies d1) + length studies \<and>
          length (Patients d') =
            length (Patients d1) +
              (if studies \<noteq> [] \<and> p = int (length (Patients d1)) then 1 else 0)"
  proof (rule Cons.IH)
    show "list_all (\<lambda>s. children s \<noteq> []) studies" using Cons.prems(1) by simp
    show "s + 1 = int (length (Studies d1))" using Cons.prems(2) d1(3) by simp
    show "p = int (length (Patients d1)) \<or> p = int (length (Patients d1)) - 1 \<and> Patients d1 \<noteq> []"
      using d1(5,6) by simp
  qed
  then obtain d' where d': "apply_calls (study_calls env dirname p (s + 1) pr studies) d1 = Some d'"
    "Series d' = Series d1 @ study_series env dirname studies"
    "length (Studies d') = length (Studies d1) + length studies"
    "length (Patients d') =
            length (Patients d1) +
              (if studies \<noteq> [] \<and> p = int (length (Patients d1)) then 1 else 0)"
    by blast
  have pl: "p \<noteq> int (length (Patients d1))" using d1(6) by simp
  have a: "apply_calls (study_calls env dirname p s pr (st # studies)) d = Some d'"
    using d1(1) d'(1) by (simp add: apply_calls_append)
  have b: "Series d' = Series d @ study_series env dirname (st # studies)"
    using d1(2) d'(2) by (simp add: study_series_def)
  have c: "length (Studies d') = length (Studies d) + length (st # studies)"
    using d1(3) d'(3) by simp
  have e: "length (Patients d') =
            length (Patients d) +
              (if st # studies \<noteq> [] \<and> p = int (length (Patients d)) then 1 else 0)"
    using d1(4) d'(4) pl by simp
  from a b c e show ?case by blast
qed

lemma calls_patient_list:
  "\<lbrakk>full_levels forest; s = int (length (Studies d)); p = int (length (Patients d))\<rbrakk>
   \<Longrightarrow> \<exists>d'. apply_calls (patient_calls env dirname p s forest) d = Some d' \<and>
          Series d' = Series d @ forest_series env dirname forest \<and>
          length (Studies d') = length (Studies d) + sum_list (map (\<lambda>p. length (children p)) forest) \<and>
          length (Patients d') = length (Patients d) + length forest"
proof (induction forest arbitrary: d s p)
  case Nil
  then show ?case by (simp add: forest_series_def)
next
  case (Cons pt forest)
  from Cons.prems(1) have ne: "children pt \<noteq> []"
    and st: "list_all (\<lambda>s. children s \<noteq> []) (children pt)"
    and rest: "full_levels forest"
    by (simp_all add: full_levels_def list_all_iff)
  have "\<exists>d'. apply_calls (study_calls env dirname p s (RecordItem (rec_of pt)) (children pt)) d
          = Some d' \<and>
          Series d' = Series d @ study_series env dirname (children pt) \<and>
          length (Studies d') = length (Studies d) + length (children pt) \<and>
          length (Patients d') =
            length (Patients d) +
              (if children pt \<noteq> [] \<and> p = int (length (Patients d)) then 1 else 0)"
    using st Cons.prems(2,3) by (intro calls_study_list) simp_all
  then obtain d1 where d1:
    "apply_calls (study_calls env dirname p s (RecordItem (rec_of pt)) (children pt)) d = Some d1"
    "Series d1 = Series d @ study_series env dirname (children pt)"
    "length (Studies d1) = length (Studies d) + length (children pt)"
    and pl: "length (Patients d1) =
            length (Patients d) +
              (if children pt \<noteq> [] \<and> p = int (length (Patients d)) then 1 else 0)"
    by blast
  from pl ne Cons.prems(3) have d1p: "length (Patients d1) = length (Patients d) + 1" by simp
  note d1 = d1 d1p
  have "\<exists>d'. apply_calls (patient_calls env dirname (p + 1)
                  (s + int (length (children pt))) forest) d1 = Some d' \<and>
          Series d' = Series d1 @ forest_series env dirname forest \<and>
          length (Studies d') =
            length (Studies d1) + sum_list (map (\<lambda>p. length (children p)) forest) \<and>
          length (Patients d') = length (Patients d1) + length forest"
  proof (rule Cons.IH)
    show "full_levels forest" by (rule rest)
    show "s + int (length (children pt)) = int (length (Studies d1))"
      using Cons.prems(2) d1(3) by simp
    show "p + 1 = int (length (Patients d1))" using Cons.prems(3) d1(4) by simp
  qed
  then obtain d' where d': "apply_calls (patient_calls env dirname (p + 1)
                  (s + int (length (children pt))) forest) d1 = Some d'"
    "Series d' = Series d1 @ forest_series env dirname forest"
    "length (Studies d') = length (Studies d1) + sum_list (map (\<lambda>p. length (children p)) forest)"
    "length (Patients d') = length (Patients d1) + length forest"
    by blast
  have a: "apply_calls (patient_calls env dirname p s (pt # forest)) d = Some d'"
    using d1(1) d'(1) by (simp add: apply_calls_append)
  have b: "Series d' = Series d @ forest_series env dirname (pt # forest)"
    using d1(2) d'(2) by (simp add: forest_series_def)
  have c: "length (Studies d') =
      length (Studies d) + sum_list (map (\<lambda>p. length (children p)) (pt # forest))"
    using d1(3) d'(3) by simp
  have e: "length (Patients d') = length (Patients d) + length (pt # forest)"
    using d1(4) d'(4) by simp
  from a b c e show ?case by blast
qed

lemma uniform_full: "uniform P S N F forest \<Longrightarrow> 0 < S \<Longrightarrow> 0 < N \<Longrightarrow> 0 < F \<Longrightarrow> full_levels forest"
  by (fastforce simp add: uniform_def full_levels_def list_all_iff)

lemma uniform_studies:
  "uniform P S N F forest \<Longrightarrow> sum_list (map (\<lambda>p. length (children p)) forest) = P * S"
proof (induction forest arbitrary: P)
  case Nil
  then show ?case by (simp add: uniform_def)
next
  case (Cons p forest)
  from Cons.prems have "uniform (length forest) S N F forest" "length (children p) = S"
    "P = Suc (length forest)"
    by (auto simp add: uniform_def)
  with Cons.IH [of "length forest"] show ?case by simp
qed

lemma uniform_study_series:
  "list_all (\<lambda>s. length (children s) = N \<and> list_all (\<lambda>e. length (children e) = F) (children s))
     studies \<Longrightarrow>
   length (study_series env dirname studies) = length studies * N \<and>
   list_all (\<lambda>e. length (SeriesItem_Files e) = F) (study_series env dirname studies)"
  by (induction studies) (auto simp add: study_series_def series_entry_def list_all_iff)

lemma uniform_series:
  "uniform P S N F forest \<Longrightarrow>
     length (forest_series env dirname forest) = P * S * N \<and>
     list_all (\<lambda>e. length (SeriesItem_Files e) = F) (forest_series env dirname forest)"
proof (induction forest arbitrary: P)
  case Nil
  then show ?case by (simp add: uniform_def forest_series_def)
next
  case (Cons p forest)
  from Cons.prems have u: "uniform (length forest) S N F forest" "length (children p) = S"
    "P = Suc (length forest)"
    and st: "list_all (\<lambda>s. length (children s) = N \<and>
        list_all (\<lambda>e. length (children e) = F) (children s)) (children p)"
    by (auto simp add: uniform_def)
  from uniform_study_series [OF st, of env dirname] Cons.IH [OF u(1)] u(2,3)
  show ?case by (simp add: forest_series_def algebra_simps)
qed


text \<open>The offset map built from a sequence with distinct offsets leads to every record.\<close>

lemma map_of_build_prefix:
  assumes "distinct (map ByteOffset items)" and "k \<le> length items" and "i < k"
  shows "map_of (fold (\<lambda>i m. AList.update (ByteOffset (items ! i)) i m) [0..<k] [])
           (ByteOffset (items ! i)) = Some i"
  using assms(2,3)
proof (induction k)
  case 0
  then show ?case by simp
next
  case (Suc k)
  show ?case
  proof (cases "i = k")
    case True
    then show ?thesis by (simp add: update_conv')
  next
    case False
    with Suc.prems have ik: "i < k" "k < length items" "i < length items" by simp_all
    from assms(1) ik False have "ByteOffset (items ! i) \<noteq> ByteOffset (items ! k)"
      by (simp add: distinct_conv_nth)
    with Suc.IH ik show ?thesis by (simp add: update_conv')
  qed
qed

lemma map_of_build_map:
  "distinct (map ByteOffset items) \<Longrightarrow> i < length items \<Longrightarrow>
     map_of (build_map items) (ByteOffset (items ! i)) = Some i"
  unfolding build_map_def by (rule map_of_build_prefix) simp_all

lemma unread_build_map:
  assumes "distinct (map ByteOffset items)" and "set rs \<subseteq> set items"
    and "length items \<le> used_mark"
  shows "unread items (build_map items) rs"
proof -
  have "\<And>r. r \<in> set rs \<Longrightarrow>
      (case map_of (build_map items) (ByteOffset r) of
         None \<Rightarrow> False | Some j \<Rightarrow> j \<noteq> used_mark \<and> items ! j = r)"
  proof -
    fix r assume "r \<in> set rs"
    with assms(2) have "r \<in> set items" by blast
    then obtain i where i: "i < length items" "items ! i = r"
      unfolding in_set_conv_nth by blast
    from map_of_build_map [OF assms(1) i(1)] i assms(3)
    show "case map_of (build_map items) (ByteOffset r) of
         None \<Rightarrow> False | Some j \<Rightarrow> j \<noteq> used_mark \<and> items ! j = r"
      by simp
  qed
  then show ?thesis by (simp add: unread_def list_all_iff)
qed

lemma decode_loop_done: "offset (snd p) = 0 \<Longrightarrow> decode_loop env dirname items p = Some p"
  by (subst decode_loop.simps) simp

lemma ProcessDirectoryFile_calls:
  assumes layout: "tree_layout items forest" and full: "full_levels forest"
    and meta: "DirectoryRecordSequence meta = items"
      "OffsetOfTheFirstDirectoryRecordOfTheRootDirectoryEntity meta = root_offset forest"
  shows "\<exists>d'. apply_calls (patient_calls env dirname (int (length (Patients this)))
                   (int (length (Studies this))) forest)
               (case dir_FileSetID meta of None \<Rightarrow> this
                | Some fileSetID \<Rightarrow> this\<lparr>FileSetID := Some fileSetID\<rparr>) = Some d' \<and>
           ProcessDirectoryFile env dirname meta None this = Some (d', None) \<and>
           Series d' = Series this @ forest_series env dirname forest \<and>
           length (Studies d') =
             length (Studies this) + sum_list (map (\<lambda>p. length (children p)) forest) \<and>
           length (Patients d') = length (Patients this) + length forest"
proof -
  let ?this1 = "case dir_FileSetID meta of None \<Rightarrow> this
                | Some fileSetID \<Rightarrow> this\<lparr>FileSetID := Some fileSetID\<rparr>"
  have tabs: "Patients ?this1 = Patients this" "Studies ?this1 = Studies this"
    "Series ?this1 = Series this"
    by (simp_all split: option.splits)
  let ?m = "int (length (Patients this))"
  let ?n = "int (length (Studies this))"
  have "\<exists>d'. apply_calls (patient_calls env dirname ?m ?n forest) ?this1 = Some d' \<and>
          Series d' = Series ?this1 @ forest_series env dirname forest \<and>
          length (Studies d') =
            length (Studies ?this1) + sum_list (map (\<lambda>p. length (children p)) forest) \<and>
          length (Patients d') = length (Patients ?this1) + length forest"
    using full tabs by (intro calls_patient_list) simp_all
  then obtain d' where d': "apply_calls (patient_calls env dirname ?m ?n forest) ?this1 = Some d'"
    "Series d' = Series this @ forest_series env dirname forest"
    "length (Studies d') =
       length (Studies this) + sum_list (map (\<lambda>p. length (children p)) forest)"
    "length (Patients d') = length (Patients this) + length forest"
    using tabs by auto
  let ?off = "if root_offset forest = 0 \<and> length items > 0 then ByteOffset (items ! 0)
              else root_offset forest"
  let ?st0 = "\<lparr>offset = ?off, offsetToIndexMap = build_map items,
               patientIdx = ?m, studyIdx = ?n,
               patientItem = 0, studyItem = 0, seriesItem = 0,
               fileNames = [], entryType = [],
               files_out = None, directory = ?this1\<rparr>"
  have pdf: "ProcessDirectoryFile env dirname meta None this =
      (case decode_loop env dirname items ([], ?st0) of
         None \<Rightarrow> None | Some (stk, st') \<Rightarrow> Some (directory st', files_out st'))"
    using meta tabs by (simp add: ProcessDirectoryFile_def Let_def)
  have run: "\<exists>st'. decode_loop env dirname items ([], ?st0) = Some ([], st') \<and>
         directory st' = d' \<and> files_out st' = None"
  proof (cases forest)
    case Nil
    with layout have "items = []" by (simp add: tree_layout_def forest_records_def)
    with Nil have "offset (snd ([], ?st0)) = 0" by (simp add: root_offset_def)
    from decode_loop_done [OF this]
    have "decode_loop env dirname items ([], ?st0) = Some ([], ?st0)" .
    moreover from Nil d'(1) have "directory ?st0 = d'" by simp
    moreover have "files_out ?st0 = None" by simp
    ultimately show ?thesis by blast
  next
    case (Cons p ps)
    from layout have lk: "linked forest" and ok: "list_all patient_ok forest"
      and di: "distinct (map ByteOffset items)"
      and dr: "distinct (map ByteOffset (forest_records forest))"
      and sub: "set (forest_records forest) \<subseteq> set items"
      and le: "length items \<le> used_mark"
      by (simp_all add: tree_layout_def)
    from lk Cons have nz: "ByteOffset (rec_of p) \<noteq> 0" by (simp add: linked_hd_nonzero)
    with Cons have off: "?off = ByteOffset (rec_of (hd forest))" by (simp add: root_offset_def)
    have abs0: "d_fileNames (abstract items ?st0) = []"
      "d_patientIdx (abstract items ?st0) = ?m" "d_studyIdx (abstract items ?st0) = ?n"
      "d_directory (abstract items ?st0) = ?this1"
      by (simp_all add: abstract_def)
    have "\<exists>D'. tree_descend_all env dirname forest (abstract items ?st0) = Some D' \<and>
        d_directory D' = d'"
      using ok full abs0 d'(1) by (intro descend_patient_list) simp_all
    then obtain D' where D': "tree_descend_all env dirname forest (abstract items ?st0) = Some D'"
      "d_directory D' = d'" by blast
    have un: "unread items (offsetToIndexMap ?st0) (forest_records forest)"
      using unread_build_map [OF di sub le] by simp
    from descend_abstract(2) [of items ?st0 forest env dirname] un dr D'(1)
    obtain st' where st': "descend_all env dirname items forest ?st0 = Some st'"
      "abstract items st' = D'" "files_out st' = None"
      by auto
    have z: "offset st' = 0" using descend_all_offset [OF lk _ st'(1)] Cons by simp
    have same: "?st0\<lparr>offset := ByteOffset (rec_of (hd forest))\<rparr> = ?st0"
      using off by simp
    from loop_descend(2) [of forest env dirname items ?st0] Cons lk st'(1)
    have "decode_loop env dirname items ([], ?st0\<lparr>offset := ByteOffset (rec_of (hd forest))\<rparr>) =
        resume env dirname items [] st'" by simp
    then have "decode_loop env dirname items ([], ?st0) = resume env dirname items [] st'"
      unfolding same .
    also have "\<dots> = decode_loop env dirname items ([], st')" by (simp add: resume_def)
    also have "\<dots> = Some ([], st')" using z by (simp add: decode_loop_done)
    finally have "decode_loop env dirname items ([], ?st0) = Some ([], st')" .
    moreover have "directory st' = d'" using st'(2) D'(2) by (auto simp add: abstract_def)
    ultimately show ?thesis using st'(3) by blast
  qed
  from run obtain st' where st': "decode_loop env dirname items ([], ?st0) = Some ([], st')"
    "directory st' = d'" "files_out st' = None" by blast
  have "ProcessDirectoryFile env dirname meta None this = Some (d', None)"
    unfolding pdf st'(1) using st'(2,3) by simp
  with d' show ?thesis by blast
qed


text \<open>The decoder run on the scrambled example sequence.\<close>

lemma example_decoded:
  "ProcessDirectoryFile example_env ''/d'' (example_directory_meta example_items) None
     (new_directory IMAGE) =
   Some ((new_directory IMAGE)
      \<lparr>FileSetID := Some ''SET'',
        Studies := [\<lparr>StudyItem_Record = ''stu'', StudyItem_PatientRecord = ''pat'',
                     FirstSeries = 0, LastSeries = 1\<rparr>],
        Patients := [\<lparr>PatientItem_Record = ''pat'', PatientItem_Studies = [0]\<rparr>],
        Series := [\<lparr>SeriesItem_Record = ''se1'', SeriesItem_Files = [''/d/A/I1'']\<rparr>,
                   \<lparr>SeriesItem_Record = ''se2'', SeriesItem_Files = [''/d/A/I2'']\<rparr>]\<rparr>, None)"
  by (simp add: example_items_def example_record_def used_mark_def
        ProcessDirectoryFile_def example_directory_meta_def new_directory_def build_map_def
        decode_loop.simps decode_step_def find_unused_def read_item_def pop_entry_def
        AddSeriesFileNames_def example_env_def example_join_def
        update_conv' Let_def)

text \<open>
  C4, as stated, fails when a level is empty. A well-formed layout of one patient with
  one study with one series without images (\<open>P = S = N = 1\<close>, \<open>F = 0\<close>) adds nothing
  to the tables, where the claim counts one patient, one study and one series without
  files; so do one patient with one study without series, and one patient without
  studies.
\<close>

theorem empty_level_counterexample:
  "tree_layout (forest_records example_empty_series) example_empty_series \<and>
   uniform 1 1 1 0 example_empty_series \<and>
   ProcessDirectoryFile example_env ''/d''
     (example_directory_meta (forest_records example_empty_series)) None (new_directory IMAGE) =
     Some ((new_directory IMAGE)\<lparr>FileSetID := Some ''SET''\<rparr>, None) \<and>
   tree_layout (forest_records example_empty_study) example_empty_study \<and>
   uniform 1 1 0 0 example_empty_study \<and>
   ProcessDirectoryFile example_env ''/d''
     (example_directory_meta (forest_records example_empty_study)) None (new_directory IMAGE) =
     Some ((new_directory IMAGE)\<lparr>FileSetID := Some ''SET''\<rparr>, None) \<and>
   tree_layout (forest_records example_empty_patient) example_empty_patient \<and>
   uniform 1 0 0 0 example_empty_patient \<and>
   ProcessDirectoryFile example_env ''/d''
     (example_directory_meta (forest_records example_empty_patient)) None (new_directory IMAGE) =
     Some ((new_directory IMAGE)\<lparr>FileSetID := Some ''SET''\<rparr>, None) \<and>
   Patients ((new_directory IMAGE)\<lparr>FileSetID := Some ''SET''\<rparr>) = [] \<and>
   Studies ((new_directory IMAGE)\<lparr>FileSetID := Some ''SET''\<rparr>) = [] \<and>
   Series ((new_directory IMAGE)\<lparr>FileSetID := Some ''SET''\<rparr>) = []"
  by (simp add: tree_layout_def uniform_def example_empty_series_def example_empty_study_def
        example_empty_patient_def forest_records_def
        example_record_def used_mark_def patient_ok_def study_ok_def series_ok_def
        ProcessDirectoryFile_def example_directory_meta_def new_directory_def build_map_def
        decode_loop.simps decode_step_def find_unused_def read_item_def pop_entry_def
        update_conv' Let_def)

text \<open>
  C4, amended. Let the record sequence be a well-formed layout of a forest of \<open>P\<close>
  patients, each with \<open>S\<close> studies, each study with \<open>N\<close> series, each series with
  \<open>F\<close> images, where \<open>S\<close>, \<open>N\<close> and \<open>F\<close> are at least 1, and let the root offset
  be the offset of the first patient. Then \<^verbatim>\<open>ProcessDirectoryFile\<close> without a capture
  list returns, the patient table has grown by \<open>P\<close> entries, the study table by
  \<open>P * S\<close>, and the series table by the \<open>P * S * N\<close> series of the forest in document
  order, each with its \<open>F\<close> file names. Every other well-formed layout of the same
  forest, whatever the physical order of its records, gives the same object.
\<close>

theorem decode_counts:
  assumes "tree_layout items forest" and "uniform P S N F forest"
    and "0 < S" and "0 < N" and "0 < F"
    and "DirectoryRecordSequence meta = items"
    and "OffsetOfTheFirstDirectoryRecordOfTheRootDirectoryEntity meta = root_offset forest"
  shows "\<exists>this'. ProcessDirectoryFile env dirname meta None this = Some (this', None) \<and>
      length (Patients this') = length (Patients this) + P \<and>
      length (Studies this') = length (Studies this) + P * S \<and>
      Series this' = Series this @ forest_series env dirname forest \<and>
      length (forest_series env dirname forest) = P * S * N \<and>
      list_all (\<lambda>e. length (SeriesItem_Files e) = F) (forest_series env dirname forest) \<and>
      (\<forall>items'. tree_layout items' forest \<longrightarrow>
         ProcessDirectoryFile env dirname (meta\<lparr>DirectoryRecordSequence := items'\<rparr>) None this =
           Some (this', None))"
proof -
  from assms(2-5) have full: "full_levels forest" by (rule uniform_full)
  from assms(2) have len: "length forest = P" by (simp add: uniform_def)
  from ProcessDirectoryFile_calls [OF assms(1) full assms(6,7), of env dirname this]
  obtain d' where d': "apply_calls (patient_calls env dirname (int (length (Patients this)))
                   (int (length (Studies this))) forest)
               (case dir_FileSetID meta of None \<Rightarrow> this
                | Some fileSetID \<Rightarrow> this\<lparr>FileSetID := Some fileSetID\<rparr>) = Some d'"
    "ProcessDirectoryFile env dirname meta None this = Some (d', None)"
    "Series d' = Series this @ forest_series env dirname forest"
    "length (Studies d') =
       length (Studies this) + sum_list (map (\<lambda>p. length (children p)) forest)"
    "length (Patients d') = length (Patients this) + length forest"
    by blast
  have other: "\<forall>items'. tree_layout items' forest \<longrightarrow>
         ProcessDirectoryFile env dirname (meta\<lparr>DirectoryRecordSequence := items'\<rparr>) None this =
           Some (d', None)"
  proof (intro allI impI)
    fix items'
    assume l': "tree_layout items' forest"
    let ?meta' = "meta\<lparr>DirectoryRecordSequence := items'\<rparr>"
    have m': "DirectoryRecordSequence ?meta' = items'"
      "OffsetOfTheFirstDirectoryRecordOfTheRootDirectoryEntity ?meta' = root_offset forest"
      using assms(7) by simp_all
    from ProcessDirectoryFile_calls [OF l' full m', of env dirname this] d'(1)
    show "ProcessDirectoryFile env dirname ?meta' None this = Some (d', None)"
      by auto
  qed
  from d'(2,3,4,5) other len uniform_studies [OF assms(2)] uniform_series [OF assms(2), of env dirname]
  show ?thesis by auto
qed


theorem decode_counts_witness:
  "\<exists>this'. ProcessDirectoryFile example_env ''/d'' (example_directory_meta example_items) None
       (new_directory IMAGE) = Some (this', None) \<and>
     length (Patients this') = 1 \<and> length (Studies this') = 1 \<and>
     Series this' = [\<lparr>SeriesItem_Record = ''se1'', SeriesItem_Files = [''/d/A/I1'']\<rparr>,
                     \<lparr>SeriesItem_Record = ''se2'', SeriesItem_Files = [''/d/A/I2'']\<rparr>] \<and>
     ProcessDirectoryFile example_env ''/d''
       (example_directory_meta (forest_records example_forest)) None (new_directory IMAGE) =
       Some (this', None)"
proof -
  have l: "tree_layout example_items example_forest"
    by (auto simp add: tree_layout_def example_items_def example_forest_def forest_records_def
          example_record_def used_mark_def patient_ok_def study_ok_def series_ok_def
          image_ok_def)
  have l': "tree_layout (forest_records example_forest) example_forest"
    by (auto simp add: tree_layout_def example_forest_def forest_records_def
          example_record_def used_mark_def patient_ok_def study_ok_def series_ok_def
          image_ok_def)
  have u: "uniform 1 1 2 1 example_forest"
    by (simp add: uniform_def example_forest_def)
  have m: "DirectoryRecordSequence (example_directory_meta example_items) = example_items"
    "OffsetOfTheFirstDirectoryRecordOfTheRootDirectoryEntity
       (example_directory_meta example_items) = root_offset example_forest"
    by (simp_all add: example_directory_meta_def root_offset_def example_forest_def
          example_record_def)
  have m': "(example_directory_meta example_items)
      \<lparr>DirectoryRecordSequence := forest_records example_forest\<rparr> =
      example_directory_meta (forest_records example_forest)"
    by (simp add: example_directory_meta_def)
  have s: "forest_series example_env ''/d'' example_forest =
      [\<lparr>SeriesItem_Record = ''se1'', SeriesItem_Files = [''/d/A/I1'']\<rparr>,
       \<lparr>SeriesItem_Record = ''se2'', SeriesItem_Files = [''/d/A/I2'']\<rparr>]"
    by (simp add: forest_series_def study_series_def series_entry_def image_name_def
          example_forest_def example_record_def example_env_def example_join_def)
  from decode_counts [OF l u _ _ _ m, of example_env "''/d''" "new_directory IMAGE"]
  obtain this' where t: "ProcessDirectoryFile example_env ''/d''
        (example_directory_meta example_items) None (new_directory IMAGE) = Some (this', None)"
    "length (Patients this') = length (Patients (new_directory IMAGE)) + 1"
    "length (Studies this') = length (Studies (new_directory IMAGE)) + 1 * 1"
    "Series this' = Series (new_directory IMAGE) @ forest_series example_env ''/d'' example_forest"
    "\<forall>items'. tree_layout items' example_forest \<longrightarrow>
         ProcessDirectoryFile example_env ''/d''
           ((example_directory_meta example_items)\<lparr>DirectoryRecordSequence := items'\<rparr>) None
           (new_directory IMAGE) = Some (this', None)"
    by auto
  from t(5) l' m' have "ProcessDirectoryFile example_env ''/d''
       (example_directory_meta (forest_records example_forest)) None (new_directory IMAGE) =
       Some (this', None)" by auto
  with t(1-4) s show ?thesis by (simp add: new_directory_def)
qed


end
